theory Spec2Isabelle
  imports Main
begin

section \<open>Python values and effects\<close>

text \<open>
  The program is \<^verbatim>\<open>cli/cli.py\<close>: a command line tool that copies every item of one
  DynamoDB table into another. All of its work goes through \<^verbatim>\<open>boto3\<close>, so the
  embedding has two layers. The functions of \<^verbatim>\<open>cli.py\<close> are translated one by one and
  take the library as a record of oracles over an abstract world \<open>'w\<close>; the backing
  store itself is a separate model, written further down from the specification's
  description of it.

  An exception is a value. \<^verbatim>\<open>ClientError\<close> carries the error code of the response
  (\<^verbatim>\<open>e.response['Error']['Code']\<close>); the exception classes that boto3 generates per
  service, such as \<^verbatim>\<open>ResourceNotFoundException\<close>, are the \<^verbatim>\<open>ClientError\<close> with that
  code. \<^verbatim>\<open>exit(1)\<close> is the outcome \<open>SystemExit 1\<close>; an exception nobody catches is the
  outcome \<open>Raised\<close>, which ends the process with a traceback and exit status 1.
\<close>

datatype exn = ClientError string | EndpointConnectionError | OtherError string

datatype 'a outcome = Returned 'a | Raised exn | SystemExit int

record table =
  table_name :: string
  profile_name :: string
  region_name :: string

record ('item, 'key) scan_response =
  Items :: "'item list"
  LastEvaluatedKey :: "'key option"
  Count :: nat

text \<open>Every request the program hands to boto3, in the order it is made.\<close>

datatype ('item, 'key) call =
    StsGetCallerIdentity string string
  | DynamodbResource string string
  | TableLoad table
  | TableScan table "'key option"
  | BatchWriter table
  | BatchPutItem table 'item
  | BatchExit table

text \<open>
  The state threaded through the program: the world behind boto3, the lines written by
  \<^verbatim>\<open>print\<close> and \<^verbatim>\<open>click.echo\<close>, the index of the progress counter after each
  \<^verbatim>\<open>bar.next\<close> (the counter's message goes to the terminal only and is left out), and
  the log of requests.
\<close>

record ('w, 'item, 'key) state =
  world :: 'w
  stdout :: "string list"
  progress :: "nat list"
  calls :: "('item, 'key) call list"

record ('w, 'item, 'key) boto3 =
  sts_get_caller_identity :: "string \<Rightarrow> string \<Rightarrow> 'w \<Rightarrow> (exn + string) \<times> 'w"
  dynamodb_resource :: "string \<Rightarrow> string \<Rightarrow> 'w \<Rightarrow> (exn + unit) \<times> 'w"
  table_load :: "table \<Rightarrow> 'w \<Rightarrow> (exn + unit) \<times> 'w"
  table_scan :: "table \<Rightarrow> 'key option \<Rightarrow> 'w \<Rightarrow> (exn + ('item, 'key) scan_response) \<times> 'w"
  batch_writer :: "table \<Rightarrow> 'w \<Rightarrow> 'w"
  batch_put_item :: "table \<Rightarrow> 'item \<Rightarrow> 'w \<Rightarrow> (exn + unit) \<times> 'w"
  batch_exit :: "table \<Rightarrow> 'w \<Rightarrow> (exn + unit) \<times> 'w"

definition print :: "string \<Rightarrow> ('w, 'item, 'key) state \<Rightarrow> ('w, 'item, 'key) state" where
  "print line s = s\<lparr>stdout := stdout s @ [line]\<rparr>"

definition request ::
  "('item, 'key) call \<Rightarrow> ('w \<Rightarrow> 'a \<times> 'w) \<Rightarrow> ('w, 'item, 'key) state \<Rightarrow> 'a \<times> ('w, 'item, 'key) state" where
  "request c f s =
     (case f (world s) of (r, w) \<Rightarrow> (r, s\<lparr>world := w, calls := calls s @ [c]\<rparr>))"

definition bar_next :: "nat \<Rightarrow> ('w, 'item, 'key) state \<Rightarrow> ('w, 'item, 'key) state" where
  "bar_next index s = s\<lparr>progress := progress s @ [index]\<rparr>"

definition quote :: "string \<Rightarrow> string" where
  "quote x = [CHR 0x27] @ x @ [CHR 0x27]"

section \<open>validate_aws_credentials\<close>

definition token_error_msg :: string where
  "token_error_msg = ''ERROR: Security token issue: ''"

definition validate_aws_credentials ::
  "('w, 'item, 'key) boto3 \<Rightarrow> string \<Rightarrow> string \<Rightarrow> ('w, 'item, 'key) state
     \<Rightarrow> string option outcome \<times> ('w, 'item, 'key) state" where
  "validate_aws_credentials b profile region s =
     (case request (StsGetCallerIdentity profile region)
             (sts_get_caller_identity b profile region) s of
        (Inr account, s') \<Rightarrow> (Returned (Some account), s')
      | (Inl (ClientError code), s') \<Rightarrow>
          if code = ''ExpiredToken'' then
            (SystemExit 1,
             print (token_error_msg @ '' Credentials for profile '' @ quote profile
                    @ '' are expired.'') s')
          else if code = ''InvalidClientTokenId'' then
            (SystemExit 1,
             print (token_error_msg @ '' Credentials for profile '' @ quote profile
                    @ '' are invalid or do not have access to region '' @ quote region
                    @ ''.'') s')
          else (Returned None, s')
      | (Inl EndpointConnectionError, s') \<Rightarrow>
          (SystemExit 1,
           print (''ERROR Invalid Region: The region '' @ quote region
                  @ '' does not appear to be a valid AWS region.'') s')
      | (Inl (OtherError e), s') \<Rightarrow> (Raised (OtherError e), s'))"

section \<open>get_dynamodb_table\<close>

definition get_dynamodb_table ::
  "('w, 'item, 'key) boto3 \<Rightarrow> string \<Rightarrow> string \<Rightarrow> string \<Rightarrow> ('w, 'item, 'key) state
     \<Rightarrow> table outcome \<times> ('w, 'item, 'key) state" where
  "get_dynamodb_table b name profile region s =
     (case request (DynamodbResource profile region) (dynamodb_resource b profile region) s of
        (Inl e, s1) \<Rightarrow> (Raised e, s1)
      | (Inr _, s1) \<Rightarrow>
          (let t = \<lparr>table_name = name, profile_name = profile, region_name = region\<rparr> in
           case request (TableLoad t) (table_load b t) s1 of
             (Inr _, s2) \<Rightarrow> (Returned t, s2)
           | (Inl (ClientError code), s2) \<Rightarrow>
               if code = ''ResourceNotFoundException'' then
                 (SystemExit 1,
                  print (''ERROR: count not find the table named '' @ quote name) s2)
               else (Raised (ClientError code), s2)
           | (Inl e, s2) \<Rightarrow> (Raised e, s2)))"

section \<open>get_dynamodb_items\<close>

text \<open>
  The \<^verbatim>\<open>while\<close> loop runs for as long as the store keeps answering with a cursor, and
  nothing in the program bounds it: the loop is a partial function, and \<open>None\<close> is the
  run that never leaves it. \<open>bar\<close> is the index of the progress counter.
\<close>

partial_function (option) scan_loop ::
  "('w, 'item, 'key) boto3 \<Rightarrow> table \<Rightarrow> 'key option \<Rightarrow> 'item list \<Rightarrow> nat
     \<Rightarrow> ('w, 'item, 'key) state \<Rightarrow> ('item list outcome \<times> ('w, 'item, 'key) state) option" where
  "scan_loop b t last_evaluated_key items bar s =
     (case last_evaluated_key of
        None \<Rightarrow> Some (Returned items, s)
      | Some k \<Rightarrow>
          (case request (TableScan t (Some k)) (table_scan b t (Some k)) s of
             (Inl e, s') \<Rightarrow> Some (Raised e, s')
           | (Inr resp, s') \<Rightarrow>
               scan_loop b t (LastEvaluatedKey resp) (items @ Items resp) (bar + Count resp)
                 (bar_next (bar + Count resp) s')))"

declare scan_loop.simps [code]

definition get_dynamodb_items ::
  "('w, 'item, 'key) boto3 \<Rightarrow> table \<Rightarrow> ('w, 'item, 'key) state
     \<Rightarrow> ('item list outcome \<times> ('w, 'item, 'key) state) option" where
  "get_dynamodb_items b t s =
     (case request (TableScan t None) (table_scan b t None) s of
        (Inl e, s') \<Rightarrow> Some (Raised e, s')
      | (Inr resp, s') \<Rightarrow>
          scan_loop b t (LastEvaluatedKey resp) ([] @ Items resp) (0 + Count resp)
            (bar_next (0 + Count resp) s'))"

section \<open>write_items_to_dyanmodb_table\<close>

text \<open>The \<^verbatim>\<open>for\<close> loop: one \<^verbatim>\<open>put_item\<close> and one \<^verbatim>\<open>bar.next()\<close> per item.\<close>

fun put_items ::
  "('w, 'item, 'key) boto3 \<Rightarrow> table \<Rightarrow> 'item list \<Rightarrow> nat \<Rightarrow> ('w, 'item, 'key) state
     \<Rightarrow> unit outcome \<times> ('w, 'item, 'key) state" where
  "put_items b t [] bar s = (Returned (), s)"
| "put_items b t (item # rest) bar s =
     (case request (BatchPutItem t item) (batch_put_item b t item) s of
        (Inl e, s') \<Rightarrow> (Raised e, s')
      | (Inr _, s') \<Rightarrow> put_items b t rest (bar + 1) (bar_next (bar + 1) s'))"

text \<open>
  \<^verbatim>\<open>with table.batch_writer() as batch\<close>: the writer's \<^verbatim>\<open>__exit__\<close> runs on the way
  out of the block whether the loop finished or raised. An exception of the loop
  goes on to the caller afterwards, unless \<^verbatim>\<open>__exit__\<close> raises one of its own.
\<close>

definition write_items_to_dyanmodb_table ::
  "('w, 'item, 'key) boto3 \<Rightarrow> 'item list \<Rightarrow> table \<Rightarrow> ('w, 'item, 'key) state
     \<Rightarrow> unit outcome \<times> ('w, 'item, 'key) state" where
  "write_items_to_dyanmodb_table b items t s =
     (case request (BatchWriter t) (\<lambda>w. ((), batch_writer b t w)) s of
        (_, s0) \<Rightarrow>
          (case put_items b t items 0 s0 of
             (out, s1) \<Rightarrow>
               (case request (BatchExit t) (batch_exit b t) s1 of
                  (Inl e, s2) \<Rightarrow> (Raised e, s2)
                | (Inr _, s2) \<Rightarrow> (out, s2))))"

section \<open>run\<close>

record args =
  src_table_name :: string
  src_profile :: string
  src_region :: string
  dest_table_name :: string
  dest_profile :: string
  dest_region :: string

text \<open>Sequencing of two statements: the second runs only if the first returned.\<close>

definition and_then ::
  "'a outcome \<times> 's \<Rightarrow> ('a \<Rightarrow> 's \<Rightarrow> ('b outcome \<times> 's) option) \<Rightarrow> ('b outcome \<times> 's) option" where
  "and_then m f =
     (case m of
        (Returned x, s) \<Rightarrow> f x s
      | (Raised e, s) \<Rightarrow> Some (Raised e, s)
      | (SystemExit c, s) \<Rightarrow> Some (SystemExit c, s))"

definition echo_args :: "args \<Rightarrow> ('w, 'item, 'key) state \<Rightarrow> ('w, 'item, 'key) state" where
  "echo_args a s =
     print (''dest_region = '' @ dest_region a)
       (print (''dest_profile = '' @ dest_profile a)
         (print (''dest_table = '' @ dest_table_name a)
           (print (''src_region = '' @ src_region a)
             (print (''src_profile = '' @ src_profile a)
               (print (''src_table = '' @ src_table_name a) s)))))"

definition run ::
  "('w, 'item, 'key) boto3 \<Rightarrow> args \<Rightarrow> ('w, 'item, 'key) state
     \<Rightarrow> (unit outcome \<times> ('w, 'item, 'key) state) option" where
  "run b a s =
     and_then (validate_aws_credentials b (src_profile a) (src_region a) (echo_args a s))
       (\<lambda>_ s. and_then (validate_aws_credentials b (dest_profile a) (dest_region a) s)
       (\<lambda>_ s. and_then (get_dynamodb_table b (src_table_name a) (src_profile a) (src_region a) s)
       (\<lambda>src_table s.
          and_then (get_dynamodb_table b (dest_table_name a) (dest_profile a) (dest_region a) s)
       (\<lambda>dest_table s.
          case get_dynamodb_items b src_table s of
            None \<Rightarrow> None
          | Some r \<Rightarrow>
              and_then r
                (\<lambda>src_items s. Some (write_items_to_dyanmodb_table b src_items dest_table s))))))"

section \<open>get_profile_names and the command line\<close>

text \<open>
  The credentials file is opened in text mode, so every line ending (\<^verbatim>\<open>\r\n\<close>,
  \<^verbatim>\<open>\r\<close> or \<^verbatim>\<open>\n\<close>) reaches the program as \<^verbatim>\<open>\n\<close>, and \<^verbatim>\<open>readlines\<close> cuts the
  text after each \<^verbatim>\<open>\n\<close>. A \<open>char\<close> is a code point below 256.
\<close>

fun universal_newlines :: "string \<Rightarrow> string" where
  "universal_newlines [] = []"
| "universal_newlines [c] = (if c = CHR 0x0D then [CHR 0x0A] else [c])"
| "universal_newlines (c # d # cs) =
     (if c = CHR 0x0D \<and> d = CHR 0x0A then CHR 0x0A # universal_newlines cs
      else if c = CHR 0x0D then CHR 0x0A # universal_newlines (d # cs)
      else c # universal_newlines (d # cs))"

fun readlines :: "string \<Rightarrow> string list" where
  "readlines [] = []"
| "readlines (c # cs) =
     (if c = CHR 0x0A then [c] # readlines cs
      else (case readlines cs of [] \<Rightarrow> [[c]] | l # ls \<Rightarrow> (c # l) # ls))"

text \<open>
  The classes \<^verbatim>\<open>\w\<close> and \<^verbatim>\<open>\s\<close> of a \<^verbatim>\<open>str\<close> pattern, on the code points below 256:
  \<^verbatim>\<open>\w\<close> is \<^verbatim>\<open>str.isalnum\<close> or the underscore, \<^verbatim>\<open>\s\<close> is \<^verbatim>\<open>str.isspace\<close>.
\<close>

definition is_word :: "char \<Rightarrow> bool" where
  "is_word c =
     (let n = (of_char c :: nat) in
      (48 \<le> n \<and> n \<le> 57) \<or> (65 \<le> n \<and> n \<le> 90) \<or> n = 95 \<or> (97 \<le> n \<and> n \<le> 122)
      \<or> n = 170 \<or> n = 178 \<or> n = 179 \<or> n = 181 \<or> n = 185 \<or> n = 186
      \<or> (188 \<le> n \<and> n \<le> 190) \<or> (192 \<le> n \<and> n \<le> 214) \<or> (216 \<le> n \<and> n \<le> 246)
      \<or> 248 \<le> n)"

definition is_space :: "char \<Rightarrow> bool" where
  "is_space c =
     (let n = (of_char c :: nat) in
      (9 \<le> n \<and> n \<le> 13) \<or> (28 \<le> n \<and> n \<le> 32) \<or> n = 133 \<or> n = 160)"

definition name_char :: "char \<Rightarrow> bool" where
  "name_char c = (is_space c \<or> is_word c \<or> c = CHR ''-'')"

text \<open>
  \<^verbatim>\<open>re.match(r'^\[([\s\w\-]+)\]$', line)\<close> and its \<^verbatim>\<open>group(1)\<close>. The group is
  greedy, and the character after it has to be \<^verbatim>\<open>]\<close>, which is not in the class: a
  shorter group never matches where the longest one does not. \<^verbatim>\<open>$\<close> matches at the
  end of the line and before a newline that ends it.
\<close>

definition match_profile :: "string \<Rightarrow> string option" where
  "match_profile line =
     (case line of
        [] \<Rightarrow> None
      | c # rest \<Rightarrow>
          if c \<noteq> CHR ''['' then None
          else
            (let name = takeWhile name_char rest; after = dropWhile name_char rest in
             if name \<noteq> [] \<and> (after = '']'' \<or> after = [CHR '']'', CHR 0x0A])
             then Some name else None))"

fun profile_names_of :: "string list \<Rightarrow> string list" where
  "profile_names_of [] = []"
| "profile_names_of (line # lines) =
     (case match_profile line of
        Some name \<Rightarrow> name # profile_names_of lines
      | None \<Rightarrow> profile_names_of lines)"

text \<open>
  \<open>environ\<close> is the process environment, \<open>home_credentials\<close> what
  \<^verbatim>\<open>Path("~/.aws/credentials").expanduser()\<close> gives, and \<open>open_file\<close> the file system:
  the text of a file, or the exception of \<^verbatim>\<open>open\<close>.
\<close>

definition get_profile_names ::
  "(string \<rightharpoonup> string) \<Rightarrow> string \<Rightarrow> (string \<Rightarrow> exn + string) \<Rightarrow> exn + string list" where
  "get_profile_names environ home_credentials open_file =
     (let credentials_path =
            (case environ ''AWS_SHARED_CREDENTIALS_FILE'' of
               Some p \<Rightarrow> p
             | None \<Rightarrow> home_credentials)
      in case open_file credentials_path of
           Inl e \<Rightarrow> Inl e
         | Inr text \<Rightarrow> Inr (profile_names_of (readlines (universal_newlines text))))"

text \<open>
  The command as click runs it when all six options are given as flags. The two
  profile options have the type \<^verbatim>\<open>click.Choice(get_profile_names())\<close>, computed when
  the module is loaded: a value outside the list is a usage error, exit status 2, and
  \<^verbatim>\<open>run\<close> is not called.
\<close>

definition ddbcp ::
  "(string \<rightharpoonup> string) \<Rightarrow> string \<Rightarrow> (string \<Rightarrow> exn + string) \<Rightarrow> ('w, 'item, 'key) boto3 \<Rightarrow> args
     \<Rightarrow> ('w, 'item, 'key) state \<Rightarrow> (unit outcome \<times> ('w, 'item, 'key) state) option" where
  "ddbcp environ home_credentials open_file b a s =
     (case get_profile_names environ home_credentials open_file of
        Inl e \<Rightarrow> Some (Raised e, s)
      | Inr choices \<Rightarrow>
          if src_profile a \<in> set choices \<and> dest_profile a \<in> set choices then run b a s
          else Some (SystemExit 2, s))"

section \<open>The backing store\<close>

text \<open>
  Modelled from the spec: the backing store and the batch-write primitive of boto3,
  neither of which is code of this repository. The specification describes them as a
  paginated table scan that answers with items and an optional continuation cursor, a
  batch write that accepts groups of put operations up to a fixed size, and writes that
  are upserts by key.

  A table is the list of its items in scan order, \<open>key_of\<close> is its key schema, and
  \<open>pager\<close> is how the store cuts a scan into pages; the cursor is the number of the next
  page. \<open>max_batch_size\<close> is the store's limit on the items of one batch, which the
  batch writer also uses as the size at which it flushes its buffer.
\<close>

record 'item ddb =
  identities :: "string \<Rightarrow> string \<Rightarrow> exn + string"
  tables :: "table \<rightharpoonup> 'item list"
  buffer :: "'item list"
  batches :: "(table \<times> 'item list) list"

definition not_found :: exn where
  "not_found = ClientError ''ResourceNotFoundException''"

definition ddb_load :: "table \<Rightarrow> 'item ddb \<Rightarrow> (exn + unit) \<times> 'item ddb" where
  "ddb_load t w = (case tables w t of None \<Rightarrow> (Inl not_found, w) | Some _ \<Rightarrow> (Inr (), w))"

definition ddb_scan ::
  "('item list \<Rightarrow> 'item list list) \<Rightarrow> table \<Rightarrow> nat option \<Rightarrow> 'item ddb
     \<Rightarrow> (exn + ('item, nat) scan_response) \<times> 'item ddb" where
  "ddb_scan pager t cursor w =
     (case tables w t of
        None \<Rightarrow> (Inl not_found, w)
      | Some content \<Rightarrow>
          (let pages = pager content;
               i = (case cursor of None \<Rightarrow> 0 | Some i \<Rightarrow> i);
               page = (if i < length pages then pages ! i else [])
           in (Inr \<lparr>Items = page,
                    LastEvaluatedKey = (if Suc i < length pages then Some (Suc i) else None),
                    Count = length page\<rparr>, w)))"

fun upsert :: "('item \<Rightarrow> 'k) \<Rightarrow> 'item \<Rightarrow> 'item list \<Rightarrow> 'item list" where
  "upsert key_of x [] = [x]"
| "upsert key_of x (y # ys) =
     (if key_of y = key_of x then x # ys else y # upsert key_of x ys)"

definition batch_write_item ::
  "('item \<Rightarrow> 'k) \<Rightarrow> table \<Rightarrow> 'item list \<Rightarrow> 'item ddb \<Rightarrow> (exn + unit) \<times> 'item ddb" where
  "batch_write_item key_of t batch w =
     (case tables w t of
        None \<Rightarrow> (Inl not_found, w)
      | Some content \<Rightarrow>
          (Inr (),
           w\<lparr>tables := (tables w)(t \<mapsto> foldl (\<lambda>c x. upsert key_of x c) content batch),
             batches := batches w @ [(t, batch)]\<rparr>))"

text \<open>
  Modelled from the spec: the batch writer of boto3, which is not code of this
  repository. \<^verbatim>\<open>put_item\<close> adds the item to the buffer and sends one batch once the
  buffer has reached the maximum; \<^verbatim>\<open>__exit__\<close> sends batches until the buffer is
  empty. A batch is taken off the buffer before it is sent. The store accepts every
  item of a batch; the retries of throttled items happen inside the primitive and do
  not show here. The maximum is a positive number (25 in boto3); with a maximum of 0
  the loop of \<^verbatim>\<open>__exit__\<close> would send empty batches for ever, and \<open>ddb_exit\<close> stops
  instead, so every statement about batches below assumes a positive maximum.
\<close>

definition flush ::
  "nat \<Rightarrow> ('item \<Rightarrow> 'k) \<Rightarrow> table \<Rightarrow> 'item ddb \<Rightarrow> (exn + unit) \<times> 'item ddb" where
  "flush max_batch_size key_of t w =
     batch_write_item key_of t (take max_batch_size (buffer w))
       (w\<lparr>buffer := drop max_batch_size (buffer w)\<rparr>)"

definition ddb_put_item ::
  "nat \<Rightarrow> ('item \<Rightarrow> 'k) \<Rightarrow> table \<Rightarrow> 'item \<Rightarrow> 'item ddb \<Rightarrow> (exn + unit) \<times> 'item ddb" where
  "ddb_put_item max_batch_size key_of t item w =
     (let w' = w\<lparr>buffer := buffer w @ [item]\<rparr> in
      if max_batch_size \<le> length (buffer w') then flush max_batch_size key_of t w'
      else (Inr (), w'))"

function ddb_exit ::
  "nat \<Rightarrow> ('item \<Rightarrow> 'k) \<Rightarrow> table \<Rightarrow> 'item ddb \<Rightarrow> (exn + unit) \<times> 'item ddb" where
  "ddb_exit max_batch_size key_of t w =
     (if buffer w = [] \<or> max_batch_size = 0 then (Inr (), w)
      else (case flush max_batch_size key_of t w of
              (Inl e, w') \<Rightarrow> (Inl e, w')
            | (Inr _, w') \<Rightarrow> ddb_exit max_batch_size key_of t w'))"
  by pat_completeness auto
termination
  by (relation "measure (\<lambda>(m, key_of, t, w). length (buffer w))")
    (auto simp: flush_def batch_write_item_def split: option.splits)

declare ddb_exit.simps [simp del]

definition dynamodb ::
  "nat \<Rightarrow> ('item list \<Rightarrow> 'item list list) \<Rightarrow> ('item \<Rightarrow> 'k) \<Rightarrow> ('item ddb, 'item, nat) boto3" where
  "dynamodb max_batch_size pager key_of =
     \<lparr>sts_get_caller_identity = (\<lambda>profile region w. (identities w profile region, w)),
      dynamodb_resource = (\<lambda>profile region w. (Inr (), w)),
      table_load = ddb_load,
      table_scan = ddb_scan pager,
      batch_writer = (\<lambda>t w. w\<lparr>buffer := []\<rparr>),
      batch_put_item = ddb_put_item max_batch_size key_of,
      batch_exit = ddb_exit max_batch_size key_of\<rparr>"

text \<open>
  A store that answers the scans of a run with a prepared list of responses, one per
  request, whatever the cursor. It stands for an arbitrary sequence of scan responses.
\<close>

definition scripted ::
  "(('item, 'key) scan_response list, 'item, 'key) boto3" where
  "scripted =
     \<lparr>sts_get_caller_identity = (\<lambda>profile region w. (Inr [], w)),
      dynamodb_resource = (\<lambda>profile region w. (Inr (), w)),
      table_load = (\<lambda>t w. (Inr (), w)),
      table_scan = (\<lambda>t cursor w.
         case w of [] \<Rightarrow> (Inl (OtherError ''StopIteration''), []) | r # rs \<Rightarrow> (Inr r, rs)),
      batch_writer = (\<lambda>t w. w),
      batch_put_item = (\<lambda>t item w. (Inr (), w)),
      batch_exit = (\<lambda>t w. (Inr (), w))\<rparr>"

definition initial :: "'w \<Rightarrow> ('w, 'item, 'key) state" where
  "initial w = \<lparr>world = w, stdout = [], progress = [], calls = []\<rparr>"

section \<open>The order of requests\<close>

text \<open>
  A run has three phases: checking credentials and opening the tables, reading, and
  writing.
\<close>

fun phase :: "('item, 'key) call \<Rightarrow> nat" where
  "phase (StsGetCallerIdentity profile region) = 0"
| "phase (DynamodbResource profile region) = 0"
| "phase (TableLoad t) = 0"
| "phase (TableScan t cursor) = 1"
| "phase (BatchWriter t) = 2"
| "phase (BatchPutItem t item) = 2"
| "phase (BatchExit t) = 2"

section \<open>The profile names, in the words of the specification\<close>

text \<open>
  A bracketed section header is a line that consists of \<^verbatim>\<open>[\<close>, a name and \<^verbatim>\<open>]\<close>,
  with or without the newline that ends the line. The names to be returned are the
  non-empty ones made of word characters, whitespace and hyphens only, in the order
  of the lines.
\<close>

definition strip_newline :: "string \<Rightarrow> string" where
  "strip_newline line = (if line \<noteq> [] \<and> last line = CHR 0x0A then butlast line else line)"

definition spec_header_name :: "string \<Rightarrow> string option" where
  "spec_header_name line =
     (let l = strip_newline line in
      if 2 \<le> length l \<and> hd l = CHR ''['' \<and> last l = CHR '']'' then
        (let name = butlast (tl l) in
         if name \<noteq> [] \<and> list_all name_char name then Some name else None)
      else None)"

definition spec_profile_names :: "string list \<Rightarrow> string list" where
  "spec_profile_names lines = List.map_filter spec_header_name lines"

section \<open>A small world to run the program in\<close>

text \<open>
  The tables of the repository's tests: a source with two items and an empty
  destination, keyed by the first component of an item.
\<close>

definition example_source :: table where
  "example_source = \<lparr>table_name = ''TEST_SOURCE'', profile_name = ''default'', region_name = ''us-east-1''\<rparr>"

definition example_destination :: table where
  "example_destination =
     \<lparr>table_name = ''TEST_DESTINATION'', profile_name = ''default'', region_name = ''us-east-1''\<rparr>"

definition example_items :: "(string \<times> string) list" where
  "example_items =
     [(''A100'', ''Data for item with ID A100''), (''A200'', ''Data for item with ID A200'')]"

definition example_world :: "(string \<times> string) ddb" where
  "example_world =
     \<lparr>identities = (\<lambda>profile region. Inr ''123456789012''),
      tables = [example_source \<mapsto> example_items, example_destination \<mapsto> []],
      buffer = [],
      batches = []\<rparr>"

definition example_args :: args where
  "example_args =
     \<lparr>src_table_name = ''TEST_SOURCE'', src_profile = ''default'', src_region = ''us-east-1'',
      dest_table_name = ''TEST_DESTINATION'', dest_profile = ''default'',
      dest_region = ''us-east-1''\<rparr>"

definition example_state :: "((string \<times> string) ddb, string \<times> string, nat) state" where
  "example_state = initial example_world"

definition one_item_pages :: "'item list \<Rightarrow> 'item list list" where
  "one_item_pages content = map (\<lambda>x. [x]) content"

definition example_responses :: "(nat, nat) scan_response list" where
  "example_responses =
     [\<lparr>Items = [1, 2], LastEvaluatedKey = Some 2, Count = 2\<rparr>,
      \<lparr>Items = [3], LastEvaluatedKey = None, Count = 1\<rparr>,
      \<lparr>Items = [4], LastEvaluatedKey = None, Count = 1\<rparr>]"

definition example_three_items :: "(string \<times> string) list" where
  "example_three_items = example_items @ [(''A300'', ''Data for item with ID A300'')]"

definition example_used_state :: "((string \<times> string) ddb, string \<times> string, nat) state" where
  "example_used_state =
     initial (example_world\<lparr>tables := [example_destination \<mapsto> [(''A200'', ''old data'')]]\<rparr>)"

definition example_unchecked_state ::
  "((string \<times> string) ddb, string \<times> string, nat) state" where
  "example_unchecked_state =
     initial (example_world\<lparr>identities :=
                (\<lambda>profile region. Inl (ClientError ''ServiceUnavailable''))\<rparr>)"

definition example_missing_args :: args where
  "example_missing_args = example_args\<lparr>src_table_name := ''FAKE_TABLE_NAME''\<rparr>"

section \<open>Profile names\<close>

lemma not_name_char_bracket: "\<not> name_char CHR '']''"
  by (simp add: name_char_def is_word_def is_space_def)

lemma match_profile_iff:
  "match_profile line = Some name \<longleftrightarrow>
     (line = ''['' @ name @ '']'' \<or> line = ''['' @ name @ [CHR '']'', CHR 0x0A])
     \<and> name \<noteq> [] \<and> (\<forall>c\<in>set name. name_char c)"
proof
  assume m: "match_profile line = Some name"
  then obtain rest where line: "line = CHR ''['' # rest"
    by (cases line) (auto simp: match_profile_def split: if_splits)
  from m line have name: "name = takeWhile name_char rest" "name \<noteq> []"
    and after: "dropWhile name_char rest = '']'' \<or> dropWhile name_char rest = [CHR '']'', CHR 0x0A]"
    by (auto simp: match_profile_def Let_def split: if_splits)
  have split: "takeWhile name_char rest @ dropWhile name_char rest = rest"
    by (rule takeWhile_dropWhile_id)
  have shape: "rest = name @ '']'' \<or> rest = name @ [CHR '']'', CHR 0x0A]"
  proof (rule disjE [OF after])
    assume "dropWhile name_char rest = '']''"
    with split name(1) show ?thesis by metis
  next
    assume "dropWhile name_char rest = [CHR '']'', CHR 0x0A]"
    with split name(1) show ?thesis by metis
  qed
  have "\<forall>c\<in>set name. name_char c"
    using name by (auto dest: set_takeWhileD)
  with shape line name(2)
  show "(line = ''['' @ name @ '']'' \<or> line = ''['' @ name @ [CHR '']'', CHR 0x0A])
     \<and> name \<noteq> [] \<and> (\<forall>c\<in>set name. name_char c)"
    by auto
next
  assume h: "(line = ''['' @ name @ '']'' \<or> line = ''['' @ name @ [CHR '']'', CHR 0x0A])
     \<and> name \<noteq> [] \<and> (\<forall>c\<in>set name. name_char c)"
  then have all: "\<And>c. c \<in> set name \<Longrightarrow> name_char c" by blast
  have tw: "takeWhile name_char (name @ CHR '']'' # ys) = name" for ys
    using all not_name_char_bracket by simp
  have dw: "dropWhile name_char (name @ CHR '']'' # ys) = CHR '']'' # ys" for ys
    using all not_name_char_bracket by simp
  from h show "match_profile line = Some name"
    by (auto simp: match_profile_def tw dw)
qed

lemma spec_header_name_iff:
  "spec_header_name line = Some name \<longleftrightarrow>
     (line = ''['' @ name @ '']'' \<or> line = ''['' @ name @ [CHR '']'', CHR 0x0A])
     \<and> name \<noteq> [] \<and> (\<forall>c\<in>set name. name_char c)"
proof
  assume s: "spec_header_name line = Some name"
  define l where "l = strip_newline line"
  from s have l: "2 \<le> length l" "hd l = CHR ''[''" "last l = CHR '']''"
    and name: "name = butlast (tl l)" "name \<noteq> []" "list_all name_char name"
    by (auto simp: spec_header_name_def Let_def l_def split: if_splits)
  from l obtain r where r: "l = CHR ''['' # r" "r \<noteq> []"
    by (cases l) (force simp: Suc_le_eq)+
  then have "r = butlast r @ [last r]" by simp
  with r l name have shape: "l = ''['' @ name @ '']''"
    by auto
  have "line = l \<or> line = l @ [CHR 0x0A]"
    unfolding l_def strip_newline_def
    by (auto simp: ) (metis append_butlast_last_id)
  with shape name show "(line = ''['' @ name @ '']'' \<or> line = ''['' @ name @ [CHR '']'', CHR 0x0A])
     \<and> name \<noteq> [] \<and> (\<forall>c\<in>set name. name_char c)"
    by (auto simp: list_all_iff)
next
  assume h: "(line = ''['' @ name @ '']'' \<or> line = ''['' @ name @ [CHR '']'', CHR 0x0A])
     \<and> name \<noteq> [] \<and> (\<forall>c\<in>set name. name_char c)"
  then have "strip_newline line = ''['' @ name @ '']''"
    by (auto simp: strip_newline_def butlast_append)
  with h show "spec_header_name line = Some name"
    by (auto simp: spec_header_name_def Let_def list_all_iff butlast_append)
qed

lemma match_profile_spec: "match_profile line = spec_header_name line"
proof (cases "match_profile line")
  case None
  then show ?thesis
    using match_profile_iff spec_header_name_iff
    by (metis option.exhaust)
next
  case (Some name)
  then show ?thesis
    using match_profile_iff [of line name] spec_header_name_iff [of line name] by simp
qed

lemma profile_names_of_spec: "profile_names_of lines = spec_profile_names lines"
  by (induction lines) (auto simp: spec_profile_names_def match_profile_spec split: option.splits)


text \<open>
  C9. \<^verbatim>\<open>get_profile_names\<close> returns the names of the bracketed section headers of the
  credentials file that consist of word characters, whitespace and hyphens only, in
  file order. A profile whose name has any other character, a period for instance, is
  not in the list, and the command line refuses it as source or destination profile:
  click ends with a usage error and \<^verbatim>\<open>run\<close> is not called.
\<close>

theorem get_profile_names_headers:
  assumes "open_file (case environ ''AWS_SHARED_CREDENTIALS_FILE'' of
                        Some path \<Rightarrow> path | None \<Rightarrow> home_credentials) = Inr txt"
  shows "get_profile_names environ home_credentials open_file
           = Inr (spec_profile_names (readlines (universal_newlines txt)))
         \<and> ((\<exists>c\<in>set p. \<not> name_char c) \<longrightarrow>
              p \<notin> set (spec_profile_names (readlines (universal_newlines txt)))
              \<and> (src_profile a = p \<or> dest_profile a = p \<longrightarrow>
                   ddbcp environ home_credentials open_file b a s = Some (SystemExit 2, s)))"
proof -
  let ?names = "spec_profile_names (readlines (universal_newlines txt))"
  have names: "get_profile_names environ home_credentials open_file = Inr ?names"
    using assms by (simp add: get_profile_names_def profile_names_of_spec)
  have absent: "p \<notin> set ?names" if "\<exists>c\<in>set p. \<not> name_char c"
  proof
    assume "p \<in> set ?names"
    then obtain line where "spec_header_name line = Some p"
      by (auto simp: spec_profile_names_def List.map_filter_def)
    then have "\<forall>c\<in>set p. name_char c"
      by (simp add: spec_header_name_iff)
    with that show False by blast
  qed
  have "ddbcp environ home_credentials open_file b a s = Some (SystemExit 2, s)"
    if "p \<notin> set ?names" "src_profile a = p \<or> dest_profile a = p"
    using that names by (auto simp: ddbcp_def)
  with names absent show ?thesis by blast
qed

theorem get_profile_names_headers_witness:
  "get_profile_names Map.empty ''/home/u/.aws/credentials''
      (\<lambda>path. Inr (''[default]'' @ [CHR 0x0A] @ ''[my.profile]'' @ [CHR 0x0D, CHR 0x0A] @ ''[profile 4]''))
     = Inr [''default'', ''profile 4'']
   \<and> ''my.profile'' \<notin> set [''default'', ''profile 4'']
   \<and> ddbcp Map.empty ''/home/u/.aws/credentials''
        (\<lambda>path. Inr (''[default]'' @ [CHR 0x0A] @ ''[my.profile]'' @ [CHR 0x0D, CHR 0x0A] @ ''[profile 4]''))
        (scripted :: ((nat, nat) scan_response list, nat, nat) boto3)
        \<lparr>src_table_name = ''S'', src_profile = ''my.profile'', src_region = ''us-east-1'',
         dest_table_name = ''D'', dest_profile = ''default'', dest_region = ''us-east-1''\<rparr>
        (initial [])
     = Some (SystemExit 2, initial [])"
proof -
  let ?txt = "''[default]'' @ [CHR 0x0A] @ ''[my.profile]'' @ [CHR 0x0D, CHR 0x0A] @ ''[profile 4]''"
  have names: "spec_profile_names (readlines (universal_newlines ?txt)) = [''default'', ''profile 4'']"
    by code_simp
  have bad: "\<exists>c\<in>set ''my.profile''. \<not> name_char c"
    by (simp add: name_char_def is_word_def is_space_def)
  show ?thesis
    using get_profile_names_headers [of "\<lambda>path. Inr ?txt" "''/home/u/.aws/credentials''" Map.empty
        ?txt "''my.profile''"
        "\<lparr>src_table_name = ''S'', src_profile = ''my.profile'', src_region = ''us-east-1'',
         dest_table_name = ''D'', dest_profile = ''default'', dest_region = ''us-east-1''\<rparr>"
        "scripted :: ((nat, nat) scan_response list, nat, nat) boto3" "initial []"]
      names bad
    by simp
qed

section \<open>The store behind the program\<close>

lemma dynamodb_fields:
  "sts_get_caller_identity (dynamodb m pager key_of) = (\<lambda>profile region w. (identities w profile region, w))"
  "dynamodb_resource (dynamodb m pager key_of) = (\<lambda>profile region w. (Inr (), w))"
  "table_load (dynamodb m pager key_of) = ddb_load"
  "table_scan (dynamodb m pager key_of) = ddb_scan pager"
  "batch_writer (dynamodb m pager key_of) = (\<lambda>t w. w\<lparr>buffer := []\<rparr>)"
  "batch_put_item (dynamodb m pager key_of) = ddb_put_item m key_of"
  "batch_exit (dynamodb m pager key_of) = ddb_exit m key_of"
  by (simp_all add: dynamodb_def)

lemma ddb_exit_empty: "buffer w = [] \<Longrightarrow> ddb_exit m key_of t w = (Inr (), w)"
  by (simp add: ddb_exit.simps)

lemma concat_one_item_pages: "concat (one_item_pages content) = content"
  by (induction content) (simp_all add: one_item_pages_def)

lemma example_tables:
  "tables example_world example_source = Some example_items"
  "tables example_world example_destination = Some []"
  by (simp_all add: example_world_def example_source_def example_destination_def)

section \<open>Writing no items\<close>

text \<open>
  C10. Writing an empty sequence of items succeeds: the call returns, no
  \<^verbatim>\<open>put_item\<close> is made (the only requests are the creation of the batch writer and
  its exit), no batch is sent, and the tables are what they were.
\<close>

theorem write_no_items:
  "\<exists>s'. write_items_to_dyanmodb_table (dynamodb m pager key_of) [] t s = (Returned (), s')
        \<and> tables (world s') = tables (world s)
        \<and> batches (world s') = batches (world s)
        \<and> calls s' = calls s @ [BatchWriter t, BatchExit t]
        \<and> progress s' = progress s \<and> stdout s' = stdout s"
  by (simp add: write_items_to_dyanmodb_table_def request_def dynamodb_fields ddb_exit_empty)

theorem write_no_items_witness:
  "\<exists>s'. write_items_to_dyanmodb_table (dynamodb 25 one_item_pages fst) [] example_destination
           example_state = (Returned (), s')
        \<and> tables (world s') = tables (world example_state)
        \<and> batches (world s') = batches (world example_state)
        \<and> calls s' = calls example_state
                        @ [BatchWriter example_destination, BatchExit example_destination]
        \<and> progress s' = progress example_state
        \<and> stdout s' = stdout example_state"
  by (rule write_no_items [of 25 one_item_pages fst example_destination example_state])

section \<open>The scan loop\<close>

lemma scripted_scan:
  "table_scan scripted t k (r # rs) = (Inr r, rs)"
  by (simp add: scripted_def)

lemma scan_loop_scripted:
  assumes "\<exists>r\<in>set rs. LastEvaluatedKey r = None" and "world s = rs"
  shows "\<exists>pre r post s'. rs = pre @ r # post
          \<and> (\<forall>x\<in>set pre. LastEvaluatedKey x \<noteq> None) \<and> LastEvaluatedKey r = None
          \<and> scan_loop scripted t (Some k) items bar s
               = Some (Returned (items @ concat (map Items (pre @ [r]))), s')
          \<and> world s' = post
          \<and> calls s' = calls s @ map (TableScan t) (Some k # map LastEvaluatedKey pre)"
  using assms
proof (induction rs arbitrary: k items bar s)
  case Nil
  then show ?case by simp
next
  case (Cons x rs)
  show ?case
  proof (cases "LastEvaluatedKey x")
    case None
    have "scan_loop scripted t (Some k) items bar s
            = Some (Returned (items @ Items x), bar_next (bar + Count x)
                 (s\<lparr>world := rs, calls := calls s @ [TableScan t (Some k)]\<rparr>))"
      using Cons.prems(2) None
      by (subst scan_loop.simps) (simp add: request_def scripted_scan scan_loop.simps)
    with None show ?thesis
      by - (rule exI [of _ "[]"], rule exI [of _ x], rule exI [of _ rs],
          rule exI [of _ "bar_next (bar + Count x)
                 (s\<lparr>world := rs, calls := calls s @ [TableScan t (Some k)]\<rparr>)"],
          simp add: bar_next_def)
  next
    case (Some k')
    let ?s1 = "bar_next (bar + Count x) (s\<lparr>world := rs, calls := calls s @ [TableScan t (Some k)]\<rparr>)"
    have step: "scan_loop scripted t (Some k) items bar s
            = scan_loop scripted t (Some k') (items @ Items x) (bar + Count x) ?s1"
      using Cons.prems(2) Some
      by (subst scan_loop.simps) (simp add: request_def scripted_scan)
    from Cons.prems(1) Some have ex: "\<exists>r\<in>set rs. LastEvaluatedKey r = None" by auto
    have w: "world ?s1 = rs" by (simp add: bar_next_def)
    from Cons.IH [OF ex w, of k' "items @ Items x" "bar + Count x"]
    obtain pre r post s' where h: "rs = pre @ r # post"
      "\<forall>x\<in>set pre. LastEvaluatedKey x \<noteq> None" "LastEvaluatedKey r = None"
      "scan_loop scripted t (Some k') (items @ Items x) (bar + Count x) ?s1
         = Some (Returned ((items @ Items x) @ concat (map Items (pre @ [r]))), s')"
      "world s' = post"
      "calls s' = calls ?s1 @ map (TableScan t) (Some k' # map LastEvaluatedKey pre)"
      by blast
    show ?thesis
      using h Some step
      by - (rule exI [of _ "x # pre"], rule exI [of _ r], rule exI [of _ post],
          rule exI [of _ s'],
          simp add: bar_next_def)
  qed
qed


text \<open>
  C6. Against any finite sequence of scan responses of which one has no
  \<^verbatim>\<open>LastEvaluatedKey\<close>, \<^verbatim>\<open>get_dynamodb_items\<close> returns, and it stops at the first
  such response: it returns the items of the responses up to and including that one,
  the responses after it are never asked for, and each request carries the cursor of
  the response before it.
\<close>

theorem scan_stops_at_first_response_without_cursor:
  assumes "\<exists>r\<in>set rs. LastEvaluatedKey r = None" and "world s = rs"
  shows "\<exists>pre r post s'. rs = pre @ r # post
          \<and> (\<forall>x\<in>set pre. LastEvaluatedKey x \<noteq> None) \<and> LastEvaluatedKey r = None
          \<and> get_dynamodb_items scripted t s = Some (Returned (concat (map Items (pre @ [r]))), s')
          \<and> world s' = post
          \<and> calls s' = calls s @ map (TableScan t) (None # map LastEvaluatedKey pre)"
proof (cases rs)
  case Nil
  with assms show ?thesis by simp
next
  case (Cons x rs')
  let ?s1 = "bar_next (0 + Count x) (s\<lparr>world := rs', calls := calls s @ [TableScan t None]\<rparr>)"
  have first: "get_dynamodb_items scripted t s
                 = scan_loop scripted t (LastEvaluatedKey x) ([] @ Items x) (0 + Count x) ?s1"
    using assms(2) Cons by (simp add: get_dynamodb_items_def request_def scripted_scan)
  show ?thesis
  proof (cases "LastEvaluatedKey x")
    case None
    with first have "get_dynamodb_items scripted t s = Some (Returned (Items x), ?s1)"
      by (simp add: scan_loop.simps)
    with None Cons show ?thesis
      by - (rule exI [of _ "[]"], rule exI [of _ x], rule exI [of _ rs'],
          rule exI [of _ ?s1],
          simp add: bar_next_def)
  next
    case (Some k)
    with assms(1) Cons have ex: "\<exists>r\<in>set rs'. LastEvaluatedKey r = None" by auto
    have w: "world ?s1 = rs'" by (simp add: bar_next_def)
    from scan_loop_scripted [OF ex w, of t k "[] @ Items x" "0 + Count x"]
    obtain pre r post s' where h: "rs' = pre @ r # post"
      "\<forall>x\<in>set pre. LastEvaluatedKey x \<noteq> None" "LastEvaluatedKey r = None"
      "scan_loop scripted t (Some k) ([] @ Items x) (0 + Count x) ?s1
         = Some (Returned (([] @ Items x) @ concat (map Items (pre @ [r]))), s')"
      "world s' = post"
      "calls s' = calls ?s1 @ map (TableScan t) (Some k # map LastEvaluatedKey pre)"
      by blast
    show ?thesis
      using h Some first Cons
      by - (rule exI [of _ "x # pre"], rule exI [of _ r], rule exI [of _ post],
          rule exI [of _ s'],
          simp add: bar_next_def)
  qed
qed

theorem scan_stops_at_first_response_without_cursor_witness:
  "(\<exists>r\<in>set example_responses. LastEvaluatedKey r = None)
   \<and> world (initial example_responses :: ((nat, nat) scan_response list, nat, nat) state)
       = example_responses
   \<and> (\<exists>pre r post s'. example_responses = pre @ r # post
          \<and> (\<forall>x\<in>set pre. LastEvaluatedKey x \<noteq> None) \<and> LastEvaluatedKey r = None
          \<and> get_dynamodb_items scripted example_source (initial example_responses)
               = Some (Returned (concat (map Items (pre @ [r]))), s')
          \<and> world s' = post
          \<and> calls s' = calls (initial example_responses :: ((nat, nat) scan_response list, nat, nat) state)
                          @ map (TableScan example_source) (None # map LastEvaluatedKey pre))
   \<and> (\<exists>s'. get_dynamodb_items scripted example_source (initial example_responses)
               = Some (Returned [1, 2, 3], s')
           \<and> world s' = [\<lparr>Items = [4], LastEvaluatedKey = None, Count = 1\<rparr>])"
proof -
  have h1: "\<exists>r\<in>set example_responses. LastEvaluatedKey r = None"
    by (simp add: example_responses_def)
  have h2: "world (initial example_responses :: ((nat, nat) scan_response list, nat, nat) state)
              = example_responses"
    by (simp add: initial_def)
  note stops = scan_stops_at_first_response_without_cursor [OF h1 h2, of example_source]
  have run: "\<exists>s'. get_dynamodb_items scripted example_source (initial example_responses)
               = Some (Returned [1, 2, 3], s')
           \<and> world s' = [\<lparr>Items = [4], LastEvaluatedKey = None, Count = 1\<rparr>]"
    by (simp add: get_dynamodb_items_def request_def scripted_def initial_def
        example_responses_def scan_loop.simps bar_next_def)
  from h1 h2 stops run show ?thesis by blast
qed

lemma ddb_scan_page:
  assumes "tables w t = Some content"
  shows "ddb_scan pager t cursor w =
           (let pages = pager content; i = (case cursor of None \<Rightarrow> 0 | Some i \<Rightarrow> i);
                page = (if i < length pages then pages ! i else [])
            in (Inr \<lparr>Items = page,
                     LastEvaluatedKey = (if Suc i < length pages then Some (Suc i) else None),
                     Count = length page\<rparr>, w))"
  using assms by (simp add: ddb_scan_def)

lemma scan_loop_dynamodb:
  assumes "tables (world s) t = Some content" and "i < length (pager content)"
  shows "\<exists>s'. scan_loop (dynamodb m pager key_of) t (Some i) items bar s
               = Some (Returned (items @ concat (drop i (pager content))), s')
             \<and> world s' = world s \<and> stdout s' = stdout s
             \<and> calls s' = calls s @ map (\<lambda>j. TableScan t (Some j)) [i ..< length (pager content)]"
  using assms
proof (induction "length (pager content) - i" arbitrary: i items bar s)
  case 0
  then show ?case by simp
next
  case (Suc n)
  let ?ps = "pager content"
  let ?s1 = "bar_next (bar + length (?ps ! i))
               (s\<lparr>calls := calls s @ [TableScan t (Some i)]\<rparr>)"
  have drop: "drop i ?ps = ?ps ! i # drop (Suc i) ?ps"
    using Suc.prems(2) by (simp add: Cons_nth_drop_Suc)
  have upt: "[i ..< length ?ps] = i # [Suc i ..< length ?ps]"
    using Suc.prems(2) by (simp add: upt_conv_Cons)
  show ?case
  proof (cases "Suc i < length ?ps")
    case True
    have step: "scan_loop (dynamodb m pager key_of) t (Some i) items bar s
                  = scan_loop (dynamodb m pager key_of) t (Some (Suc i)) (items @ ?ps ! i)
                      (bar + length (?ps ! i)) ?s1"
      using Suc.prems True
      by (subst scan_loop.simps)
         (simp add: request_def dynamodb_fields ddb_scan_page Let_def)
    have n: "n = length ?ps - Suc i" using Suc.hyps(2) by simp
    have t1: "tables (world ?s1) t = Some content"
      using Suc.prems(1) by (simp add: bar_next_def)
    from Suc.hyps(1) [OF n t1 True, of "items @ ?ps ! i" "bar + length (?ps ! i)"]
    obtain s' where h:
      "scan_loop (dynamodb m pager key_of) t (Some (Suc i)) (items @ ?ps ! i)
          (bar + length (?ps ! i)) ?s1
         = Some (Returned ((items @ ?ps ! i) @ concat (drop (Suc i) ?ps)), s')"
      "world s' = world ?s1" "stdout s' = stdout ?s1"
      "calls s' = calls ?s1 @ map (\<lambda>j. TableScan t (Some j)) [Suc i ..< length ?ps]"
      by blast
    show ?thesis
      using h step drop upt by - (rule exI [of _ s'], simp add: bar_next_def)
  next
    case False
    with Suc.prems(2) have last: "drop (Suc i) ?ps = []" "[Suc i ..< length ?ps] = []"
      by simp_all
    have "scan_loop (dynamodb m pager key_of) t (Some i) items bar s
                  = Some (Returned (items @ ?ps ! i), ?s1)"
      using Suc.prems False
      by (subst scan_loop.simps)
         (simp add: request_def dynamodb_fields ddb_scan_page Let_def scan_loop.simps)
    then show ?thesis
      using drop upt last by - (rule exI [of _ ?s1], simp add: bar_next_def)
  qed
qed

lemma get_dynamodb_items_dynamodb:
  assumes "tables (world s) t = Some content" and "concat (pager content) = content"
  shows "\<exists>s'. get_dynamodb_items (dynamodb m pager key_of) t s = Some (Returned content, s')
             \<and> world s' = world s"
proof (cases "Suc 0 < length (pager content)")
  case True
  let ?ps = "pager content"
  let ?s1 = "bar_next (0 + length (?ps ! 0)) (s\<lparr>calls := calls s @ [TableScan t None]\<rparr>)"
  have first: "get_dynamodb_items (dynamodb m pager key_of) t s
                 = scan_loop (dynamodb m pager key_of) t (Some (Suc 0)) ([] @ ?ps ! 0)
                     (0 + length (?ps ! 0)) ?s1"
    using assms(1) True
    by (cases ?ps)
       (simp_all add: get_dynamodb_items_def request_def dynamodb_fields ddb_scan_page Let_def)
  have t1: "tables (world ?s1) t = Some content"
    using assms(1) by (simp add: bar_next_def)
  from scan_loop_dynamodb [where pager = pager and content = content, OF t1 True,
      of m key_of "[] @ ?ps ! 0" "0 + length (?ps ! 0)"]
  obtain s' where h:
    "scan_loop (dynamodb m pager key_of) t (Some (Suc 0)) ([] @ ?ps ! 0) (0 + length (?ps ! 0)) ?s1
       = Some (Returned (([] @ ?ps ! 0) @ concat (drop (Suc 0) ?ps)), s')"
    "world s' = world ?s1"
    by blast
  have "?ps = ?ps ! 0 # drop (Suc 0) ?ps"
    using True by (cases ?ps) simp_all
  then have "?ps ! 0 @ concat (drop (Suc 0) ?ps) = content"
    using assms(2) by (metis concat.simps(2))
  with h first show ?thesis
    by - (rule exI [of _ s'], simp add: bar_next_def)
next
  case False
  let ?ps = "pager content"
  let ?page = "if 0 < length ?ps then ?ps ! 0 else []"
  let ?s1 = "bar_next (0 + length ?page) (s\<lparr>calls := calls s @ [TableScan t None]\<rparr>)"
  have "get_dynamodb_items (dynamodb m pager key_of) t s = Some (Returned ?page, ?s1)"
    using assms(1) False
    by (simp add: get_dynamodb_items_def request_def dynamodb_fields ddb_scan_page Let_def
        scan_loop.simps)
  moreover have "?page = content"
    using assms(2) False by (cases ?ps) auto
  ultimately show ?thesis
    by - (rule exI [of _ ?s1], simp add: bar_next_def)
qed


text \<open>
  C1. Whatever pages the store cuts the scan of a table into, as long as the pages
  together are the table, \<^verbatim>\<open>get_dynamodb_items\<close> returns and its result is the list
  of the table's items, each one once and in scan order: nothing is left out and
  nothing comes twice. Two stores that hold the same table and cut it into pages in
  different ways give the same result. The store is left as it was.
\<close>

theorem scan_all_page_independent:
  assumes "tables (world s) t = Some content"
    and "concat (pager content) = content" and "concat (pager' content) = content"
  shows "\<exists>items s1 s2.
             get_dynamodb_items (dynamodb m pager key_of) t s = Some (Returned items, s1)
           \<and> get_dynamodb_items (dynamodb m pager' key_of) t s = Some (Returned items, s2)
           \<and> items = content \<and> world s1 = world s \<and> world s2 = world s"
proof -
  from get_dynamodb_items_dynamodb [where pager = pager and content = content,
      OF assms(1) assms(2), of m key_of]
  obtain s1 where one:
    "get_dynamodb_items (dynamodb m pager key_of) t s = Some (Returned content, s1)"
    "world s1 = world s"
    by blast
  from get_dynamodb_items_dynamodb [where pager = pager' and content = content,
      OF assms(1) assms(3), of m key_of]
  obtain s2 where two:
    "get_dynamodb_items (dynamodb m pager' key_of) t s = Some (Returned content, s2)"
    "world s2 = world s"
    by blast
  from one two show ?thesis by blast
qed

theorem scan_all_page_independent_witness:
  "tables (world example_state) example_source = Some example_items
   \<and> concat (one_item_pages example_items) = example_items
   \<and> concat ((\<lambda>content. [content]) example_items) = example_items
   \<and> (\<exists>items s1 s2.
         get_dynamodb_items (dynamodb 25 one_item_pages fst) example_source example_state
           = Some (Returned items, s1)
       \<and> get_dynamodb_items (dynamodb 25 (\<lambda>content. [content]) fst) example_source example_state
           = Some (Returned items, s2)
       \<and> items = example_items \<and> world s1 = world example_state
       \<and> world s2 = world example_state)"
proof -
  have h: "tables (world example_state) example_source = Some example_items"
    "concat (one_item_pages example_items) = example_items"
    "concat ((\<lambda>content. [content]) example_items) = example_items"
    by (simp_all add: example_state_def initial_def example_tables concat_one_item_pages)
  from scan_all_page_independent [where pager = one_item_pages
      and pager' = "\<lambda>content. [content]" and content = example_items, OF h, of 25 fst] h
  show ?thesis by blast
qed

section \<open>The batch writer\<close>

lemma flush_whole:
  assumes "tables w t = Some content" and "length (buffer w) \<le> m"
  shows "flush m key_of t w =
           (Inr (), w\<lparr>buffer := [],
                      tables := (tables w)(t \<mapsto> foldl (\<lambda>c x. upsert key_of x c) content (buffer w)),
                      batches := batches w @ [(t, buffer w)]\<rparr>)"
  using assms by (simp add: flush_def batch_write_item_def)

lemma ddb_exit_short:
  assumes "0 < m" and "tables w t = Some content" and "length (buffer w) < m"
  shows "ddb_exit m key_of t w =
           (Inr (), if buffer w = [] then w
                    else w\<lparr>buffer := [],
                           tables := (tables w)(t \<mapsto> foldl (\<lambda>c x. upsert key_of x c) content (buffer w)),
                           batches := batches w @ [(t, buffer w)]\<rparr>)"
proof (cases "buffer w = []")
  case True
  then show ?thesis by (simp add: ddb_exit_empty)
next
  case False
  have "flush m key_of t w =
           (Inr (), w\<lparr>buffer := [],
                      tables := (tables w)(t \<mapsto> foldl (\<lambda>c x. upsert key_of x c) content (buffer w)),
                      batches := batches w @ [(t, buffer w)]\<rparr>)"
    using assms by (simp add: flush_whole)
  with False assms(1) show ?thesis
    by (subst ddb_exit.simps) (simp add: ddb_exit_empty)
qed

lemma put_items_dynamodb:
  assumes "0 < m" and "tables (world s) t = Some content" and "length (buffer (world s)) < m"
  shows "\<exists>s' bs. put_items (dynamodb m pager key_of) t items bar s = (Returned (), s')
     \<and> tables (world s') = (tables (world s))(t \<mapsto> foldl (\<lambda>c x. upsert key_of x c) content (concat bs))
     \<and> batches (world s') = batches (world s) @ map (Pair t) bs
     \<and> (\<forall>b\<in>set bs. length b = m)
     \<and> concat bs @ buffer (world s') = buffer (world s) @ items
     \<and> length (buffer (world s')) < m
     \<and> identities (world s') = identities (world s)
     \<and> stdout s' = stdout s
     \<and> calls s' = calls s @ map (BatchPutItem t) items"
  using assms
proof (induction items arbitrary: s content bar)
  case Nil
  show ?case
    using Nil.prems
    by - (rule exI [of _ s], rule exI [of _ "[]"], simp add: map_upd_triv)
next
  case (Cons x items)
  let ?b = "dynamodb m pager key_of"
  let ?buf = "buffer (world s) @ [x]"
  show ?case
  proof (cases "m \<le> length ?buf")
    case True
    then have len: "length ?buf = m" using Cons.prems(3) by simp
    let ?c1 = "foldl (\<lambda>c x. upsert key_of x c) content ?buf"
    let ?w1 = "(world s)\<lparr>buffer := [], tables := (tables (world s))(t \<mapsto> ?c1),
                        batches := batches (world s) @ [(t, ?buf)]\<rparr>"
    let ?s1 = "bar_next (bar + 1) (s\<lparr>world := ?w1, calls := calls s @ [BatchPutItem t x]\<rparr>)"
    have put: "ddb_put_item m key_of t x (world s) = (Inr (), ?w1)"
      using True Cons.prems(2) len
      by (simp add: ddb_put_item_def Let_def flush_whole)
    have step: "put_items ?b t (x # items) bar s = put_items ?b t items (bar + 1) ?s1"
      by (simp add: request_def dynamodb_fields put)
    have p2: "tables (world ?s1) t = Some ?c1" by (simp add: bar_next_def)
    have p3: "length (buffer (world ?s1)) < m" using Cons.prems(1) by (simp add: bar_next_def)
    from Cons.IH [OF Cons.prems(1) p2 p3, of "bar + 1"]
    obtain s' bs where h:
      "put_items ?b t items (bar + 1) ?s1 = (Returned (), s')"
      "tables (world s') = (tables (world ?s1))(t \<mapsto> foldl (\<lambda>c x. upsert key_of x c) ?c1 (concat bs))"
      "batches (world s') = batches (world ?s1) @ map (Pair t) bs"
      "\<forall>b\<in>set bs. length b = m"
      "concat bs @ buffer (world s') = buffer (world ?s1) @ items"
      "length (buffer (world s')) < m"
      "identities (world s') = identities (world ?s1)"
      "stdout s' = stdout ?s1"
      "calls s' = calls ?s1 @ map (BatchPutItem t) items"
      by blast
    show ?thesis
      using h step len
      by - (rule exI [of _ s'], rule exI [of _ "?buf # bs"], simp add: bar_next_def)
  next
    case False
    let ?w1 = "(world s)\<lparr>buffer := ?buf\<rparr>"
    let ?s1 = "bar_next (bar + 1) (s\<lparr>world := ?w1, calls := calls s @ [BatchPutItem t x]\<rparr>)"
    have put: "ddb_put_item m key_of t x (world s) = (Inr (), ?w1)"
      using False by (simp add: ddb_put_item_def Let_def)
    have step: "put_items ?b t (x # items) bar s = put_items ?b t items (bar + 1) ?s1"
      by (simp add: request_def dynamodb_fields put)
    have p2: "tables (world ?s1) t = Some content"
      using Cons.prems(2) by (simp add: bar_next_def)
    have p3: "length (buffer (world ?s1)) < m" using False by (simp add: bar_next_def)
    from Cons.IH [OF Cons.prems(1) p2 p3, of "bar + 1"]
    obtain s' bs where h:
      "put_items ?b t items (bar + 1) ?s1 = (Returned (), s')"
      "tables (world s') = (tables (world ?s1))(t \<mapsto> foldl (\<lambda>c x. upsert key_of x c) content (concat bs))"
      "batches (world s') = batches (world ?s1) @ map (Pair t) bs"
      "\<forall>b\<in>set bs. length b = m"
      "concat bs @ buffer (world s') = buffer (world ?s1) @ items"
      "length (buffer (world s')) < m"
      "identities (world s') = identities (world ?s1)"
      "stdout s' = stdout ?s1"
      "calls s' = calls ?s1 @ map (BatchPutItem t) items"
      by blast
    show ?thesis
      using h step
      by - (rule exI [of _ s'], rule exI [of _ bs], simp add: bar_next_def)
  qed
qed

lemma ceil_div_batches:
  assumes "0 < (m::nat)" and "r < m"
  shows "(k * m + r + m - 1) div m = k + (if r = 0 then 0 else 1)"
proof (rule div_nat_eqI)
  show "m * (k + (if r = 0 then 0 else 1)) \<le> k * m + r + m - 1"
    using assms by (auto simp: algebra_simps)
  show "k * m + r + m - 1 < m * Suc (k + (if r = 0 then 0 else 1))"
    using assms by (auto simp: algebra_simps)
qed

lemma length_concat_equal:
  "\<forall>b\<in>set bs. length b = m \<Longrightarrow> length (concat bs) = length bs * m"
  by (induction bs) simp_all

lemma write_items_dynamodb:
  assumes "0 < m" and "tables (world s) t = Some content"
  shows "\<exists>s' bs. write_items_to_dyanmodb_table (dynamodb m pager key_of) items t s = (Returned (), s')
     \<and> tables (world s') = (tables (world s))(t \<mapsto> foldl (\<lambda>c x. upsert key_of x c) content items)
     \<and> batches (world s') = batches (world s) @ map (Pair t) bs
     \<and> concat bs = items
     \<and> (\<forall>b\<in>set bs. b \<noteq> [] \<and> length b \<le> m)
     \<and> length bs = (length items + m - 1) div m
     \<and> buffer (world s') = []
     \<and> identities (world s') = identities (world s)
     \<and> stdout s' = stdout s
     \<and> calls s' = calls s @ BatchWriter t # map (BatchPutItem t) items @ [BatchExit t]"
proof -
  let ?b = "dynamodb m pager key_of"
  let ?U = "\<lambda>c x. upsert key_of x c"
  let ?s0 = "s\<lparr>world := (world s)\<lparr>buffer := []\<rparr>, calls := calls s @ [BatchWriter t]\<rparr>"
  have p2: "tables (world ?s0) t = Some content" using assms(2) by simp
  have p3: "length (buffer (world ?s0)) < m" using assms(1) by simp
  from put_items_dynamodb [OF assms(1) p2 p3, of pager key_of items 0]
  obtain s1 bs where h:
    "put_items ?b t items 0 ?s0 = (Returned (), s1)"
    "tables (world s1) = (tables (world ?s0))(t \<mapsto> foldl ?U content (concat bs))"
    "batches (world s1) = batches (world ?s0) @ map (Pair t) bs"
    "\<forall>b\<in>set bs. length b = m"
    "concat bs @ buffer (world s1) = buffer (world ?s0) @ items"
    "length (buffer (world s1)) < m"
    "identities (world s1) = identities (world ?s0)"
    "stdout s1 = stdout ?s0"
    "calls s1 = calls ?s0 @ map (BatchPutItem t) items"
    by blast
  let ?buf = "buffer (world s1)"
  let ?c1 = "foldl ?U content (concat bs)"
  have t1: "tables (world s1) t = Some ?c1" using h(2) by simp
  define w2 where "w2 =
     (if ?buf = [] then world s1
      else (world s1)\<lparr>buffer := [], tables := (tables (world s1))(t \<mapsto> foldl ?U ?c1 ?buf),
                       batches := batches (world s1) @ [(t, ?buf)]\<rparr>)"
  define s2 where "s2 = s1\<lparr>world := w2, calls := calls s1 @ [BatchExit t]\<rparr>"
  define bs2 where "bs2 = (if ?buf = [] then bs else bs @ [?buf])"
  have exit: "ddb_exit m key_of t (world s1) = (Inr (), w2)"
    unfolding w2_def using ddb_exit_short [OF assms(1) t1 h(6)] .
  have run: "write_items_to_dyanmodb_table ?b items t s = (Returned (), s2)"
    using h(1)
    by (simp add: write_items_to_dyanmodb_table_def request_def dynamodb_fields exit s2_def)
  have items: "items = concat bs @ ?buf" using h(5) by simp
  have fold: "foldl ?U content items = foldl ?U ?c1 ?buf"
    by (subst items) simp
  have tabs: "tables w2 = (tables (world s))(t \<mapsto> foldl ?U content items)"
  proof (cases "?buf = []")
    case True
    with h(2) items show ?thesis by (simp add: w2_def)
  next
    case False
    with h(2) fold show ?thesis by (simp add: w2_def)
  qed
  have cat: "concat bs2 = items" using items by (simp add: bs2_def)
  have sizes: "\<forall>b\<in>set bs2. b \<noteq> [] \<and> length b \<le> m"
    using h(4) h(6) assms(1) by (auto simp: bs2_def)
  have "length items = length bs * m + length ?buf"
    using items length_concat_equal [OF h(4)] by (metis length_append)
  then have count: "length bs2 = (length items + m - 1) div m"
    using ceil_div_batches [OF assms(1) h(6), of "length bs"] by (simp add: bs2_def)
  have bat: "batches w2 = batches (world s) @ map (Pair t) bs2"
    using h(3) by (simp add: w2_def bs2_def)
  have rest: "buffer w2 = []" "identities w2 = identities (world s)"
    using h(7) by (simp_all add: w2_def)
  have out: "stdout s2 = stdout s"
    "calls s2 = calls s @ BatchWriter t # map (BatchPutItem t) items @ [BatchExit t]"
    "world s2 = w2"
    using h(8) h(9) by (simp_all add: s2_def)
  show ?thesis
    using run tabs bat cat sizes count rest out
    by - (rule exI [of _ s2], rule exI [of _ bs2], simp)
qed

section \<open>Upserts\<close>

lemma find_filter_other:
  "k \<noteq> k' \<Longrightarrow> find (\<lambda>y. key_of y = k) (filter (\<lambda>y. key_of y \<noteq> k') xs)
                 = find (\<lambda>y. key_of y = k) xs"
  by (induction xs) auto

lemma upsert_absent:
  "key_of x \<notin> key_of ` set c \<Longrightarrow> upsert key_of x c = c @ [x]"
  by (induction c) auto

lemma foldl_upsert_fresh:
  "distinct (map key_of items) \<Longrightarrow> key_of ` set items \<inter> key_of ` set c = {}
     \<Longrightarrow> foldl (\<lambda>c x. upsert key_of x c) c items = c @ items"
proof (induction items arbitrary: c)
  case Nil
  then show ?case by simp
next
  case (Cons x items)
  have "upsert key_of x c = c @ [x]"
    using Cons.prems(2) by (intro upsert_absent) auto
  moreover have "foldl (\<lambda>c x. upsert key_of x c) (c @ [x]) items = (c @ [x]) @ items"
    using Cons.prems by (intro Cons.IH) auto
  ultimately show ?case by simp
qed

lemma keys_upsert:
  "key_of ` set (upsert key_of x c) = insert (key_of x) (key_of ` set c)"
  by (induction c) auto

lemma keys_foldl_upsert:
  "key_of ` set (foldl (\<lambda>c x. upsert key_of x c) c items) = key_of ` set c \<union> key_of ` set items"
  by (induction items arbitrary: c) (auto simp: keys_upsert)

lemma find_upsert:
  "find (\<lambda>y. key_of y = k) (upsert key_of x c)
     = (if key_of x = k then Some x else find (\<lambda>y. key_of y = k) c)"
  by (induction c) auto

lemma upsert_same:
  "find (\<lambda>y. key_of y = key_of x) c = Some x \<Longrightarrow> upsert key_of x c = c"
  by (induction c) (auto split: if_splits)

lemma upsert_absorb:
  "key_of x = key_of y \<Longrightarrow> upsert key_of x (upsert key_of y c) = upsert key_of x c"
  by (induction c) auto

lemma upsert_commute:
  "key_of x \<noteq> key_of y \<Longrightarrow> key_of x \<in> key_of ` set c
     \<Longrightarrow> upsert key_of x (upsert key_of y c) = upsert key_of y (upsert key_of x c)"
  by (induction c) auto

lemma find_foldl_upsert:
  "find (\<lambda>y. key_of y = k) (foldl (\<lambda>c x. upsert key_of x c) c items)
     = (case find (\<lambda>y. key_of y = k) (rev items) of
          Some x \<Rightarrow> Some x
        | None \<Rightarrow> find (\<lambda>y. key_of y = k) c)"
  by (induction items rule: rev_induct) (auto simp: find_upsert)

lemma upsert_foldl_filter:
  assumes "key_of x \<in> key_of ` set d"
  shows "upsert key_of x (foldl (\<lambda>c x. upsert key_of x c) d items)
           = upsert key_of x (foldl (\<lambda>c x. upsert key_of x c) d
                (filter (\<lambda>y. key_of y \<noteq> key_of x) items))"
proof (induction items rule: rev_induct)
  case Nil
  show ?case by simp
next
  case (snoc y items)
  let ?U = "\<lambda>c x. upsert key_of x c"
  let ?f = "filter (\<lambda>y. key_of y \<noteq> key_of x)"
  show ?case
  proof (cases "key_of y = key_of x")
    case True
    then have "upsert key_of x (foldl ?U d (items @ [y])) = upsert key_of x (foldl ?U d items)"
      by (simp add: upsert_absorb)
    with True snoc show ?thesis by simp
  next
    case False
    have in1: "key_of x \<in> key_of ` set (foldl ?U d items)"
      using assms by (simp add: keys_foldl_upsert)
    have in2: "key_of x \<in> key_of ` set (foldl ?U d (?f items))"
      using assms by (simp add: keys_foldl_upsert)
    have ne: "key_of x \<noteq> key_of y" using False by simp
    have "upsert key_of x (foldl ?U d (items @ [y]))
            = upsert key_of y (upsert key_of x (foldl ?U d items))"
      using upsert_commute [OF ne in1] by simp
    also have "\<dots> = upsert key_of y (upsert key_of x (foldl ?U d (?f items)))"
      using snoc by simp
    also have "\<dots> = upsert key_of x (upsert key_of y (foldl ?U d (?f items)))"
      using upsert_commute [OF ne in2] by simp
    finally show ?thesis using False by simp
  qed
qed

lemma foldl_upsert_settled:
  assumes "\<forall>x\<in>set items. find (\<lambda>y. key_of y = key_of x) d
                             = find (\<lambda>y. key_of y = key_of x) (rev items)"
  shows "foldl (\<lambda>c x. upsert key_of x c) d items = d"
  using assms
proof (induction "length items" arbitrary: items rule: less_induct)
  case less
  let ?U = "\<lambda>c x. upsert key_of x c"
  show ?case
  proof (cases items rule: rev_cases)
    case Nil
    then show ?thesis by simp
  next
    case (snoc rest x)
    let ?rest' = "filter (\<lambda>y. key_of y \<noteq> key_of x) rest"
    have fx: "find (\<lambda>y. key_of y = key_of x) d = Some x"
      using less.prems snoc by simp
    then have present: "key_of x \<in> key_of ` set d"
      by (auto simp: find_Some_iff)
    have "\<forall>z\<in>set ?rest'. find (\<lambda>y. key_of y = key_of z) d
                             = find (\<lambda>y. key_of y = key_of z) (rev ?rest')"
    proof
      fix z assume z: "z \<in> set ?rest'"
      then have "find (\<lambda>y. key_of y = key_of z) d = find (\<lambda>y. key_of y = key_of z) (rev rest)"
        using less.prems snoc by auto
      moreover have "find (\<lambda>y. key_of y = key_of z) (rev ?rest')
                       = find (\<lambda>y. key_of y = key_of z) (rev rest)"
        using z
        by (simp add: rev_filter find_filter_other)
      ultimately show "find (\<lambda>y. key_of y = key_of z) d
                             = find (\<lambda>y. key_of y = key_of z) (rev ?rest')"
        by simp
    qed
    moreover have "length ?rest' < length items"
      using snoc by (simp add: le_imp_less_Suc)
    ultimately have settled: "foldl ?U d ?rest' = d"
      using less.hyps by blast
    have "foldl ?U d items = upsert key_of x (foldl ?U d rest)"
      using snoc by simp
    also have "\<dots> = upsert key_of x (foldl ?U d ?rest')"
      using present by (rule upsert_foldl_filter)
    also have "\<dots> = d"
      using settled fx by (simp add: upsert_same)
    finally show ?thesis .
  qed
qed

lemma foldl_upsert_twice:
  "foldl (\<lambda>c x. upsert key_of x c) (foldl (\<lambda>c x. upsert key_of x c) c items) items
     = foldl (\<lambda>c x. upsert key_of x c) c items"
proof (rule foldl_upsert_settled, rule ballI)
  fix x assume "x \<in> set items"
  then have "find (\<lambda>y. key_of y = key_of x) (rev items) \<noteq> None"
    by (auto simp: find_None_iff)
  then show "find (\<lambda>y. key_of y = key_of x) (foldl (\<lambda>c x. upsert key_of x c) c items)
               = find (\<lambda>y. key_of y = key_of x) (rev items)"
    by (auto simp: find_foldl_upsert split: option.splits)
qed


section \<open>Writing to the destination\<close>

text \<open>
  C7. For every sequence of items, the writer's items reach the store in batches of at
  most \<open>max_batch_size\<close> items each: the batches, in order, are the sequence cut into
  pieces, none of them empty, so their number is the ceiling of the number of items
  over \<open>max_batch_size\<close>, and with that at least this ceiling. The cutting is done by
  the batch writer of the store's client, which the program hands every item to.
\<close>

theorem batches_respect_maximum:
  assumes "0 < max_batch_size" and "tables (world s) t = Some content"
  shows "\<exists>s' bs. write_items_to_dyanmodb_table (dynamodb max_batch_size pager key_of) items t s
                  = (Returned (), s')
     \<and> batches (world s') = batches (world s) @ map (Pair t) bs
     \<and> concat bs = items
     \<and> (\<forall>b\<in>set bs. b \<noteq> [] \<and> length b \<le> max_batch_size)
     \<and> length bs = (length items + max_batch_size - 1) div max_batch_size
     \<and> (length items + max_batch_size - 1) div max_batch_size \<le> length bs"
proof -
  from write_items_dynamodb [OF assms, of pager key_of items]
  obtain s' bs where
    "write_items_to_dyanmodb_table (dynamodb max_batch_size pager key_of) items t s = (Returned (), s')"
    "batches (world s') = batches (world s) @ map (Pair t) bs"
    "concat bs = items"
    "\<forall>b\<in>set bs. b \<noteq> [] \<and> length b \<le> max_batch_size"
    "length bs = (length items + max_batch_size - 1) div max_batch_size"
    by blast
  then show ?thesis
    by - (rule exI [of _ s'], rule exI [of _ bs], simp)
qed

theorem batches_respect_maximum_witness:
  "(0::nat) < 2 \<and> tables (world example_state) example_destination = Some []
   \<and> (\<exists>s' bs. write_items_to_dyanmodb_table (dynamodb 2 one_item_pages fst) example_three_items
                  example_destination example_state = (Returned (), s')
     \<and> batches (world s') = batches (world example_state) @ map (Pair example_destination) bs
     \<and> concat bs = example_three_items
     \<and> (\<forall>b\<in>set bs. b \<noteq> [] \<and> length b \<le> 2)
     \<and> length bs = (length example_three_items + 2 - 1) div 2
     \<and> (length example_three_items + 2 - 1) div 2 \<le> length bs)
   \<and> (length example_three_items + 2 - 1) div 2 = 2"
proof -
  have h: "(0::nat) < 2" "tables (world example_state) example_destination = Some []"
    by (simp_all add: example_state_def initial_def example_tables)
  have "(length example_three_items + 2 - 1) div 2 = 2"
    by (simp add: example_three_items_def example_items_def)
  with h batches_respect_maximum [OF h, of one_item_pages fst example_three_items]
  show ?thesis by blast
qed

text \<open>
  C5. For every sequence of items and every content of the destination table, writing
  the sequence a second time leaves the table exactly as the first write left it: each
  write is an upsert by key, which overwrites the item of that key and adds none.
\<close>

theorem write_twice_same_content:
  assumes "0 < max_batch_size" and "tables (world s) t = Some content"
  shows "\<exists>s1 s2. write_items_to_dyanmodb_table (dynamodb max_batch_size pager key_of) items t s
                  = (Returned (), s1)
     \<and> write_items_to_dyanmodb_table (dynamodb max_batch_size pager key_of) items t s1
                  = (Returned (), s2)
     \<and> tables (world s2) = tables (world s1)"
proof -
  let ?U = "\<lambda>c x. upsert key_of x c"
  from write_items_dynamodb [OF assms, of pager key_of items]
  obtain s1 where one:
    "write_items_to_dyanmodb_table (dynamodb max_batch_size pager key_of) items t s = (Returned (), s1)"
    "tables (world s1) = (tables (world s))(t \<mapsto> foldl ?U content items)"
    by blast
  then have t1: "tables (world s1) t = Some (foldl ?U content items)" by simp
  from write_items_dynamodb [OF assms(1) t1, of pager key_of items]
  obtain s2 where two:
    "write_items_to_dyanmodb_table (dynamodb max_batch_size pager key_of) items t s1 = (Returned (), s2)"
    "tables (world s2) = (tables (world s1))(t \<mapsto> foldl ?U (foldl ?U content items) items)"
    by blast
  have "tables (world s2) = tables (world s1)"
    using two(2) one(2) by (simp add: foldl_upsert_twice)
  with one(1) two(1) show ?thesis by blast
qed

theorem write_twice_same_content_witness:
  "(0::nat) < 25
   \<and> tables (world example_used_state) example_destination = Some [(''A200'', ''old data'')]
   \<and> (\<exists>s1 s2. write_items_to_dyanmodb_table (dynamodb 25 one_item_pages fst) example_items
                  example_destination example_used_state = (Returned (), s1)
     \<and> write_items_to_dyanmodb_table (dynamodb 25 one_item_pages fst) example_items
                  example_destination s1 = (Returned (), s2)
     \<and> tables (world s2) = tables (world s1))"
proof -
  have h: "(0::nat) < 25"
    "tables (world example_used_state) example_destination = Some [(''A200'', ''old data'')]"
    by (simp_all add: example_used_state_def initial_def)
  with write_twice_same_content [OF h, of one_item_pages fst example_items]
  show ?thesis by blast
qed

text \<open>
  C2. For every sequence of items without duplicate keys and a destination table that
  is empty, writing the sequence and then scanning the table gives the sequence back:
  the same items, each as it was written.
\<close>

theorem write_then_scan_round_trip:
  assumes "0 < max_batch_size" and "tables (world s) t = Some []"
    and "distinct (map key_of items)" and "concat (pager items) = items"
  shows "\<exists>s1 s2. write_items_to_dyanmodb_table (dynamodb max_batch_size pager key_of) items t s
                  = (Returned (), s1)
     \<and> tables (world s1) t = Some items
     \<and> get_dynamodb_items (dynamodb max_batch_size pager key_of) t s1 = Some (Returned items, s2)"
proof -
  let ?U = "\<lambda>c x. upsert key_of x c"
  from write_items_dynamodb [OF assms(1,2), of pager key_of items]
  obtain s1 where one:
    "write_items_to_dyanmodb_table (dynamodb max_batch_size pager key_of) items t s = (Returned (), s1)"
    "tables (world s1) = (tables (world s))(t \<mapsto> foldl ?U [] items)"
    by blast
  have "foldl ?U [] items = [] @ items"
    using assms(3) by (intro foldl_upsert_fresh) simp_all
  with one(2) have t1: "tables (world s1) t = Some items" by simp
  from get_dynamodb_items_dynamodb [where pager = pager and content = items, OF t1 assms(4),
      of max_batch_size key_of]
  obtain s2 where
    "get_dynamodb_items (dynamodb max_batch_size pager key_of) t s1 = Some (Returned items, s2)"
    by blast
  with one(1) t1 show ?thesis by blast
qed


theorem write_then_scan_round_trip_witness:
  "(0::nat) < 25 \<and> tables (world example_state) example_destination = Some []
   \<and> distinct (map fst example_items)
   \<and> concat (one_item_pages example_items) = example_items
   \<and> (\<exists>s1 s2. write_items_to_dyanmodb_table (dynamodb 25 one_item_pages fst) example_items
                  example_destination example_state = (Returned (), s1)
     \<and> tables (world s1) example_destination = Some example_items
     \<and> get_dynamodb_items (dynamodb 25 one_item_pages fst) example_destination s1
           = Some (Returned example_items, s2))"
proof -
  have h: "(0::nat) < 25" "tables (world example_state) example_destination = Some []"
    "distinct (map fst example_items)" "concat (one_item_pages example_items) = example_items"
    by (simp_all add: example_state_def initial_def example_tables example_items_def
        concat_one_item_pages)
  with write_then_scan_round_trip [where pager = one_item_pages and items = example_items, OF h]
  show ?thesis by blast
qed


section \<open>The requests of a run\<close>

lemma request_calls:
  "request c f s = (r, s') \<Longrightarrow> calls s' = calls s @ [c]"
  by (auto simp: request_def split: prod.splits)

lemma validate_calls:
  "validate_aws_credentials b profile region s = (out, s')
     \<Longrightarrow> calls s' = calls s @ [StsGetCallerIdentity profile region]"
  by (auto simp: validate_aws_credentials_def print_def
      split: prod.splits sum.splits exn.splits if_splits dest!: request_calls)

lemma get_dynamodb_table_calls:
  assumes "get_dynamodb_table b name profile region s = (out, s')"
  shows "(\<exists>t. out = Returned t)
           \<longrightarrow> out = Returned \<lparr>table_name = name, profile_name = profile, region_name = region\<rparr>
               \<and> calls s' = calls s @ [DynamodbResource profile region,
                    TableLoad \<lparr>table_name = name, profile_name = profile, region_name = region\<rparr>]"
    and "\<exists>cs. calls s' = calls s @ cs \<and> (\<forall>c\<in>set cs. phase c = 0)"
  using assms
  by (auto simp: get_dynamodb_table_def print_def Let_def
      split: prod.splits sum.splits exn.splits if_splits dest!: request_calls)

lemma scan_loop_calls:
  fixes b :: "('w, 'item, 'key) boto3"
  assumes "scan_loop b t k items bar s = Some y"
  shows "\<exists>ks. calls (snd y) = calls s @ map (\<lambda>k. TableScan t (Some k)) ks"
proof (rule scan_loop.raw_induct
    [of "\<lambda>b t k items bar s y. \<exists>ks. calls (snd y) = calls s @ map (\<lambda>k. TableScan t (Some k)) ks",
     OF _ assms])
  fix f b t k items bar s y
  assume IH: "\<And>(b :: ('w, 'item, 'key) boto3) t k items bar s y. f b t k items bar s = Some y
                \<Longrightarrow> \<exists>ks. calls (snd y) = calls s @ map (\<lambda>k. TableScan t (Some k)) ks"
    and body: "(case k of
        None \<Rightarrow> Some (Returned items, s)
      | Some k \<Rightarrow>
          (case request (TableScan t (Some k)) (table_scan b t (Some k)) s of
             (Inl e, s') \<Rightarrow> Some (Raised e, s')
           | (Inr resp, s') \<Rightarrow>
               f b t (LastEvaluatedKey resp) (items @ Items resp) (bar + Count resp)
                 (bar_next (bar + Count resp) s'))) = Some y"
  show "\<exists>ks. calls (snd y) = calls s @ map (\<lambda>k. TableScan t (Some k)) ks"
  proof (cases k)
    case None
    with body show ?thesis by auto
  next
    case (Some k')
    obtain r s1 where req: "request (TableScan t (Some k')) (table_scan b t (Some k')) s = (r, s1)"
      by (cases "request (TableScan t (Some k')) (table_scan b t (Some k')) s")
    then have c1: "calls s1 = calls s @ [TableScan t (Some k')]"
      by (rule request_calls)
    show ?thesis
    proof (cases r)
      case (Inl e)
      with body Some req c1 have "calls (snd y) = calls s @ map (\<lambda>k. TableScan t (Some k)) [k']"
        by auto
      then show ?thesis by blast
    next
      case (Inr resp)
      with body Some req
      have "f b t (LastEvaluatedKey resp) (items @ Items resp) (bar + Count resp)
              (bar_next (bar + Count resp) s1) = Some y"
        by simp
      from IH [OF this] obtain ks where
        "calls (snd y) = calls (bar_next (bar + Count resp) s1)
                           @ map (\<lambda>k. TableScan t (Some k)) ks"
        by blast
      with c1 have "calls (snd y) = calls s @ map (\<lambda>k. TableScan t (Some k)) (k' # ks)"
        by (simp add: bar_next_def)
      then show ?thesis by blast
    qed
  qed
qed

lemma get_dynamodb_items_calls:
  assumes "get_dynamodb_items b t s = Some y"
  shows "\<exists>ks. calls (snd y) = calls s @ TableScan t None # map (\<lambda>k. TableScan t (Some k)) ks"
proof -
  obtain r s1 where req: "request (TableScan t None) (table_scan b t None) s = (r, s1)"
    by (cases "request (TableScan t None) (table_scan b t None) s")
  then have c1: "calls s1 = calls s @ [TableScan t None]"
    by (rule request_calls)
  show ?thesis
  proof (cases r)
    case (Inl e)
    with assms req c1 have "calls (snd y) = calls s @ TableScan t None # map (\<lambda>k. TableScan t (Some k)) []"
      by (auto simp: get_dynamodb_items_def)
    then show ?thesis by blast
  next
    case (Inr resp)
    with assms req
    have "scan_loop b t (LastEvaluatedKey resp) ([] @ Items resp) (0 + Count resp)
              (bar_next (0 + Count resp) s1) = Some y"
      by (simp add: get_dynamodb_items_def)
    from scan_loop_calls [OF this] obtain ks where
      "calls (snd y) = calls (bar_next (0 + Count resp) s1) @ map (\<lambda>k. TableScan t (Some k)) ks"
      by blast
    with c1 have "calls (snd y) = calls s @ TableScan t None # map (\<lambda>k. TableScan t (Some k)) ks"
      by (simp add: bar_next_def)
    then show ?thesis by blast
  qed
qed

lemma put_items_calls:
  "put_items b t items bar s = (out, s')
     \<Longrightarrow> \<exists>n\<le>length items. calls s' = calls s @ map (BatchPutItem t) (take n items)
              \<and> (out = Returned () \<longrightarrow> n = length items)"
proof (induction items arbitrary: bar s)
  case Nil
  then show ?case by simp
next
  case (Cons x items)
  obtain r s1 where req: "request (BatchPutItem t x) (batch_put_item b t x) s = (r, s1)"
    by (cases "request (BatchPutItem t x) (batch_put_item b t x) s")
  then have c1: "calls s1 = calls s @ [BatchPutItem t x]"
    by (rule request_calls)
  show ?case
  proof (cases r)
    case (Inl e)
    with Cons.prems req c1 have "calls s' = calls s @ map (BatchPutItem t) (take 1 (x # items))"
      "out \<noteq> Returned ()"
      by auto
    then show ?thesis
      by - (rule exI [of _ 1], simp)
  next
    case (Inr u)
    with Cons.prems req
    have "put_items b t items (bar + 1) (bar_next (bar + 1) s1) = (out, s')"
      by simp
    from Cons.IH [OF this] obtain n where n: "n \<le> length items"
      "calls s' = calls (bar_next (bar + 1) s1) @ map (BatchPutItem t) (take n items)"
      "out = Returned () \<longrightarrow> n = length items"
      by blast
    with c1 show ?thesis
      by - (rule exI [of _ "Suc n"], simp add: bar_next_def)
  qed
qed

lemma write_items_calls:
  assumes "write_items_to_dyanmodb_table b items t s = (out, s')"
  shows "\<exists>n\<le>length items.
           calls s' = calls s @ BatchWriter t # map (BatchPutItem t) (take n items) @ [BatchExit t]
           \<and> (out = Returned () \<longrightarrow> n = length items)"
proof -
  obtain u s0 where r0: "request (BatchWriter t) (\<lambda>w. ((), batch_writer b t w)) s = (u, s0)"
    by (cases "request (BatchWriter t) (\<lambda>w. ((), batch_writer b t w)) s")
  obtain out1 s1 where r1: "put_items b t items 0 s0 = (out1, s1)"
    by (cases "put_items b t items 0 s0")
  obtain r s2 where r2: "request (BatchExit t) (batch_exit b t) s1 = (r, s2)"
    by (cases "request (BatchExit t) (batch_exit b t) s1")
  from put_items_calls [OF r1] obtain n where n: "n \<le> length items"
    "calls s1 = calls s0 @ map (BatchPutItem t) (take n items)"
    "out1 = Returned () \<longrightarrow> n = length items"
    by blast
  have c: "calls s2 = calls s @ BatchWriter t # map (BatchPutItem t) (take n items) @ [BatchExit t]"
    using request_calls [OF r0] request_calls [OF r2] n(2) by simp
  have "s' = s2" "out = Returned () \<longrightarrow> out1 = Returned ()"
    using assms r0 r1 r2
    by (auto simp: write_items_to_dyanmodb_table_def split: sum.splits)
  with c n show ?thesis by blast
qed


lemma and_then_cases:
  assumes "and_then m f = Some (out, s')"
  obtains (returned) x s1 where "m = (Returned x, s1)" and "f x s1 = Some (out, s')"
    | (stopped) "snd m = s'" and "\<forall>y. out \<noteq> Returned y"
  using assms by (cases m; cases "fst m") (auto simp: and_then_def)

lemma sorted_same_phase:
  "\<forall>c\<in>set cs. phase c = n \<Longrightarrow> sorted (map phase cs)"
  by (induction cs) auto

lemma sorted_phases:
  assumes "\<forall>c\<in>set pre. phase c = 0" and "\<forall>c\<in>set scans. phase c = 1"
    and "\<forall>c\<in>set writes. phase c = 2"
  shows "sorted (map phase (pre @ scans @ writes))"
  using assms sorted_same_phase [of pre 0] sorted_same_phase [of scans 1]
    sorted_same_phase [of writes 2]
  by (auto simp: sorted_append)

text \<open>
  C8. In every run that ends, whatever the store answers, the requests come in the
  order of the phases: every scan request is made before the batch writer is created
  and before any item is handed to it. A run that returns has made its requests in
  exactly this order: the two credential checks, the two table lookups, the scan
  requests one after the other, then one \<^verbatim>\<open>put_item\<close> per item, in the order of the
  items. Each request is a call that has returned before the next one is made, so no
  two are ever under way together.
\<close>

theorem reads_complete_before_writes:
  fixes b :: "('w, 'item, 'key) boto3"
  assumes "run b a s = Some (out, s')"
  shows "\<exists>cs. calls s' = calls s @ cs \<and> sorted (map phase cs)
           \<and> (out = Returned () \<longrightarrow>
                (\<exists>ks items.
                   cs = [StsGetCallerIdentity (src_profile a) (src_region a),
                         StsGetCallerIdentity (dest_profile a) (dest_region a),
                         DynamodbResource (src_profile a) (src_region a),
                         TableLoad \<lparr>table_name = src_table_name a, profile_name = src_profile a,
                                    region_name = src_region a\<rparr>,
                         DynamodbResource (dest_profile a) (dest_region a),
                         TableLoad \<lparr>table_name = dest_table_name a, profile_name = dest_profile a,
                                    region_name = dest_region a\<rparr>]
                        @ TableScan \<lparr>table_name = src_table_name a, profile_name = src_profile a,
                                     region_name = src_region a\<rparr> None
                        # map (\<lambda>k. TableScan \<lparr>table_name = src_table_name a,
                                     profile_name = src_profile a, region_name = src_region a\<rparr>
                                     (Some k)) ks
                        @ BatchWriter \<lparr>table_name = dest_table_name a, profile_name = dest_profile a,
                                    region_name = dest_region a\<rparr>
                        # map (BatchPutItem \<lparr>table_name = dest_table_name a,
                                    profile_name = dest_profile a, region_name = dest_region a\<rparr>) items
                        @ [BatchExit \<lparr>table_name = dest_table_name a, profile_name = dest_profile a,
                                    region_name = dest_region a\<rparr>]))"
proof -
  let ?src = "\<lparr>table_name = src_table_name a, profile_name = src_profile a,
               region_name = src_region a\<rparr>"
  let ?dst = "\<lparr>table_name = dest_table_name a, profile_name = dest_profile a,
               region_name = dest_region a\<rparr>"
  let ?V1 = "StsGetCallerIdentity (src_profile a) (src_region a) :: ('item, 'key) call"
  let ?V2 = "StsGetCallerIdentity (dest_profile a) (dest_region a) :: ('item, 'key) call"
  let ?pre = "[?V1, ?V2, DynamodbResource (src_profile a) (src_region a), TableLoad ?src,
               DynamodbResource (dest_profile a) (dest_region a), TableLoad ?dst]"
  define K4 where "K4 = (\<lambda>src_table dest_table (s4 :: ('w, 'item, 'key) state).
     case get_dynamodb_items b src_table s4 of
       None \<Rightarrow> None
     | Some r \<Rightarrow>
         and_then r (\<lambda>src_items s. Some (write_items_to_dyanmodb_table b src_items dest_table s)))"
  define K3 where "K3 = (\<lambda>src_table s3.
     and_then (get_dynamodb_table b (dest_table_name a) (dest_profile a) (dest_region a) s3)
       (K4 src_table))"
  define K2 where "K2 = (\<lambda>s2.
     and_then (get_dynamodb_table b (src_table_name a) (src_profile a) (src_region a) s2) K3)"
  define K1 where "K1 = (\<lambda>s1.
     and_then (validate_aws_credentials b (dest_profile a) (dest_region a) s1) (\<lambda>_. K2))"
  have run: "and_then (validate_aws_credentials b (src_profile a) (src_region a) (echo_args a s))
               (\<lambda>_. K1) = Some (out, s')"
    using assms by (simp add: run_def K1_def K2_def K3_def K4_def)
  have e0: "calls (echo_args a s) = calls s"
    by (simp add: echo_args_def print_def)
  have stop: ?thesis if "calls s' = calls s @ cs" "\<forall>c\<in>set cs. phase c = 0" "\<forall>y. out \<noteq> Returned y"
    for cs
    using that sorted_phases [of cs "[]" "[]"]
    by - (rule exI [of _ cs], simp)
  obtain o1 s1 where v1:
    "validate_aws_credentials b (src_profile a) (src_region a) (echo_args a s) = (o1, s1)"
    by (cases "validate_aws_credentials b (src_profile a) (src_region a) (echo_args a s)")
  have c1: "calls s1 = calls s @ [?V1]"
    using validate_calls [OF v1] e0 by simp
  from run show ?thesis
  proof (cases rule: and_then_cases)
    case stopped
    with v1 c1 show ?thesis by (intro stop [of "[?V1]"]) simp_all
  next
    case (returned x1 s1')
    with v1 have k1: "K1 s1 = Some (out, s')" by simp
    obtain o2 s2 where v2:
      "validate_aws_credentials b (dest_profile a) (dest_region a) s1 = (o2, s2)"
      by (cases "validate_aws_credentials b (dest_profile a) (dest_region a) s1")
    have c2: "calls s2 = calls s @ [?V1, ?V2]"
      using validate_calls [OF v2] c1 by simp
    from k1 have "and_then (validate_aws_credentials b (dest_profile a) (dest_region a) s1)
                    (\<lambda>_. K2) = Some (out, s')"
      by (simp add: K1_def)
    then show ?thesis
    proof (cases rule: and_then_cases)
      case stopped
      with v2 c2 show ?thesis by (intro stop [of "[?V1, ?V2]"]) simp_all
    next
      case (returned x2 s2')
      with v2 have k2: "K2 s2 = Some (out, s')" by simp
      obtain o3 s3 where g3:
        "get_dynamodb_table b (src_table_name a) (src_profile a) (src_region a) s2 = (o3, s3)"
        by (cases "get_dynamodb_table b (src_table_name a) (src_profile a) (src_region a) s2")
      from get_dynamodb_table_calls(2) [OF g3] obtain cs3 where c3:
        "calls s3 = calls s2 @ cs3" "\<forall>c\<in>set cs3. phase c = 0"
        by blast
      from k2 have "and_then (get_dynamodb_table b (src_table_name a) (src_profile a)
                      (src_region a) s2) K3 = Some (out, s')"
        by (simp add: K2_def)
      then show ?thesis
      proof (cases rule: and_then_cases)
        case stopped
        with g3 c2 c3 show ?thesis by (intro stop [of "[?V1, ?V2] @ cs3"]) simp_all
      next
        case (returned t3 s3')
        with g3 have o3: "o3 = Returned t3" "s3' = s3" by simp_all
        with get_dynamodb_table_calls(1) [OF g3]
        have t3: "t3 = ?src"
          and c3': "calls s3 = calls s2 @ [DynamodbResource (src_profile a) (src_region a),
                                           TableLoad ?src]"
          by simp_all
        from returned o3 t3 have k3: "K3 ?src s3 = Some (out, s')" by simp
        obtain o4 s4 where g4:
          "get_dynamodb_table b (dest_table_name a) (dest_profile a) (dest_region a) s3 = (o4, s4)"
          by (cases "get_dynamodb_table b (dest_table_name a) (dest_profile a) (dest_region a) s3")
        from get_dynamodb_table_calls(2) [OF g4] obtain cs4 where c4:
          "calls s4 = calls s3 @ cs4" "\<forall>c\<in>set cs4. phase c = 0"
          by blast
        from k3 have "and_then (get_dynamodb_table b (dest_table_name a) (dest_profile a)
                        (dest_region a) s3) (K4 ?src) = Some (out, s')"
          by (simp add: K3_def)
        then show ?thesis
        proof (cases rule: and_then_cases)
          case stopped
          with g4 c2 c3' c4 show ?thesis
            by (intro stop [of "[?V1, ?V2, DynamodbResource (src_profile a) (src_region a),
                                 TableLoad ?src] @ cs4"]) simp_all
        next
          case (returned t4 s4')
          with g4 have o4: "o4 = Returned t4" "s4' = s4" by simp_all
          with get_dynamodb_table_calls(1) [OF g4]
          have t4: "t4 = ?dst"
            and c4': "calls s4 = calls s3 @ [DynamodbResource (dest_profile a) (dest_region a),
                                             TableLoad ?dst]"
            by simp_all
          have pre: "calls s4 = calls s @ ?pre"
            using c2 c3' c4' by simp
          have pre0: "\<forall>c\<in>set ?pre. phase c = 0" by simp
          from returned o4 t4 have k4: "K4 ?src ?dst s4 = Some (out, s')" by simp
          then obtain r5 where i5: "get_dynamodb_items b ?src s4 = Some r5"
            and k5: "and_then r5 (\<lambda>src_items s.
                       Some (write_items_to_dyanmodb_table b src_items ?dst s)) = Some (out, s')"
            by (auto simp: K4_def split: option.splits)
          from get_dynamodb_items_calls [OF i5] obtain ks where c5:
            "calls (snd r5) = calls s4 @ TableScan ?src None # map (\<lambda>k. TableScan ?src (Some k)) ks"
            by blast
          let ?scans = "TableScan ?src None # map (\<lambda>k. TableScan ?src (Some k)) ks"
          have scans1: "\<forall>c\<in>set ?scans. phase c = 1" by auto
          from k5 show ?thesis
          proof (cases rule: and_then_cases)
            case stopped
            have "calls s' = calls s @ ?pre @ ?scans @ []"
              using stopped(1) c5 pre by simp
            moreover have "sorted (map phase (?pre @ ?scans @ []))"
              using pre0 scans1 by (intro sorted_phases) simp_all
            ultimately show ?thesis
              using stopped(2) by - (rule exI [of _ "?pre @ ?scans @ []"], simp)
          next
            case (returned src_items s5)
            then have w6: "write_items_to_dyanmodb_table b src_items ?dst s5 = (out, s')"
              and s5: "snd r5 = s5"
              by simp_all
            from write_items_calls [OF w6] obtain n where n: "n \<le> length src_items"
              "calls s' = calls s5 @ BatchWriter ?dst
                            # map (BatchPutItem ?dst) (take n src_items) @ [BatchExit ?dst]"
              "out = Returned () \<longrightarrow> n = length src_items"
              by blast
            let ?writes = "BatchWriter ?dst # map (BatchPutItem ?dst) (take n src_items)
                             @ [BatchExit ?dst]"
            have writes2: "\<forall>c\<in>set ?writes. phase c = 2" by auto
            have all: "calls s' = calls s @ ?pre @ ?scans @ ?writes"
              using n(2) s5 c5 pre by simp
            have sorted: "sorted (map phase (?pre @ ?scans @ ?writes))"
              using pre0 scans1 writes2 by (rule sorted_phases)
            have shape: "out = Returned () \<longrightarrow>
                   (\<exists>ks items. ?pre @ ?scans @ ?writes
                      = ?pre @ TableScan ?src None # map (\<lambda>k. TableScan ?src (Some k)) ks
                          @ BatchWriter ?dst # map (BatchPutItem ?dst) items @ [BatchExit ?dst])"
              by (rule impI, rule exI [of _ ks], rule exI [of _ "take n src_items"]) simp
            from all sorted shape show ?thesis
              by - (rule exI [of _ "?pre @ ?scans @ ?writes"], blast)
          qed
        qed
      qed
    qed
  qed
qed


theorem reads_complete_before_writes_witness:
  "\<exists>s'. run (dynamodb 25 one_item_pages fst) example_args example_state = Some (Returned (), s')
     \<and> (\<exists>cs. calls s' = calls example_state @ cs \<and> sorted (map phase cs)
           \<and> (\<exists>ks items.
                   cs = [StsGetCallerIdentity ''default'' ''us-east-1'',
                         StsGetCallerIdentity ''default'' ''us-east-1'',
                         DynamodbResource ''default'' ''us-east-1'',
                         TableLoad example_source,
                         DynamodbResource ''default'' ''us-east-1'',
                         TableLoad example_destination]
                        @ TableScan example_source None
                        # map (\<lambda>k. TableScan example_source (Some k)) ks
                        @ BatchWriter example_destination
                        # map (BatchPutItem example_destination) items
                        @ [BatchExit example_destination]))"
proof -
  have "case run (dynamodb 25 one_item_pages fst) example_args example_state of
          None \<Rightarrow> False | Some (out, s') \<Rightarrow> out = Returned ()"
    by code_simp
  then obtain s' where r:
    "run (dynamodb 25 one_item_pages fst) example_args example_state = Some (Returned (), s')"
    by (auto split: option.splits)
  from reads_complete_before_writes [OF r] r show ?thesis
    by (simp add: example_args_def example_source_def example_destination_def)
qed

section \<open>Failures\<close>

lemma validate_dynamodb:
  "\<exists>out s'. validate_aws_credentials (dynamodb m pager key_of) profile region s = (out, s')
      \<and> world s' = world s
      \<and> calls s' = calls s @ [StsGetCallerIdentity profile region]
      \<and> (\<forall>account. identities (world s) profile region = Inr account
             \<longrightarrow> out = Returned (Some account) \<and> stdout s' = stdout s)"
  by (auto simp: validate_aws_credentials_def request_def dynamodb_fields print_def
      split: sum.splits exn.splits)

lemma get_dynamodb_table_missing:
  assumes "tables (world s) \<lparr>table_name = name, profile_name = profile, region_name = region\<rparr> = None"
  shows "get_dynamodb_table (dynamodb m pager key_of) name profile region s
           = (SystemExit 1,
              s\<lparr>calls := calls s @ [DynamodbResource profile region,
                     TableLoad \<lparr>table_name = name, profile_name = profile, region_name = region\<rparr>],
                stdout := stdout s @ [''ERROR: count not find the table named '' @ quote name]\<rparr>)"
  using assms
  by (simp add: get_dynamodb_table_def request_def dynamodb_fields ddb_load_def not_found_def
      print_def)

text \<open>
  C3. If the source table does not exist, the run ends without returning, the store is
  left exactly as it was, and no request other than credential checks and table
  lookups is made: nothing is scanned and the writer is never called. With credentials
  that pass the check, the run ends in \<^verbatim>\<open>exit(1)\<close> after printing that the table could
  not be found, before the destination table is even looked up.
\<close>

theorem missing_source_table_is_fatal:
  assumes "tables (world s) \<lparr>table_name = src_table_name a, profile_name = src_profile a,
                              region_name = src_region a\<rparr> = None"
  shows "\<exists>out s'. run (dynamodb m pager key_of) a s = Some (out, s')
           \<and> out \<noteq> Returned ()
           \<and> world s' = world s
           \<and> (\<forall>c\<in>set (calls s'). c \<in> set (calls s) \<or> phase c = 0)
           \<and> ((\<exists>account. identities (world s) (src_profile a) (src_region a) = Inr account)
                \<and> (\<exists>account. identities (world s) (dest_profile a) (dest_region a) = Inr account)
                \<longrightarrow> out = SystemExit 1
                    \<and> stdout s' = stdout (echo_args a s)
                         @ [''ERROR: count not find the table named '' @ quote (src_table_name a)]
                    \<and> calls s' = calls s
                         @ [StsGetCallerIdentity (src_profile a) (src_region a),
                            StsGetCallerIdentity (dest_profile a) (dest_region a),
                            DynamodbResource (src_profile a) (src_region a),
                            TableLoad \<lparr>table_name = src_table_name a, profile_name = src_profile a,
                                       region_name = src_region a\<rparr>])"
proof -
  let ?b = "dynamodb m pager key_of"
  let ?src = "\<lparr>table_name = src_table_name a, profile_name = src_profile a,
               region_name = src_region a\<rparr>"
  let ?ok1 = "\<exists>account. identities (world s) (src_profile a) (src_region a) = Inr account"
  let ?ok2 = "\<exists>account. identities (world s) (dest_profile a) (dest_region a) = Inr account"
  let ?V1 = "StsGetCallerIdentity (src_profile a) (src_region a) :: ('a, nat) call"
  let ?V2 = "StsGetCallerIdentity (dest_profile a) (dest_region a) :: ('a, nat) call"
  let ?msg = "''ERROR: count not find the table named '' @ quote (src_table_name a)"
  have e0: "calls (echo_args a s) = calls s" "world (echo_args a s) = world s"
    by (simp_all add: echo_args_def print_def)
  from validate_dynamodb [of m pager key_of "src_profile a" "src_region a" "echo_args a s"]
  obtain o1 s1 where v1:
    "validate_aws_credentials ?b (src_profile a) (src_region a) (echo_args a s) = (o1, s1)"
    "world s1 = world s" "calls s1 = calls s @ [?V1]"
    "\<forall>account. identities (world s) (src_profile a) (src_region a) = Inr account
       \<longrightarrow> o1 = Returned (Some account) \<and> stdout s1 = stdout (echo_args a s)"
    using e0 by auto
  from validate_dynamodb [of m pager key_of "dest_profile a" "dest_region a" s1]
  obtain o2 s2 where v2:
    "validate_aws_credentials ?b (dest_profile a) (dest_region a) s1 = (o2, s2)"
    "world s2 = world s" "calls s2 = calls s @ [?V1, ?V2]"
    "\<forall>account. identities (world s) (dest_profile a) (dest_region a) = Inr account
       \<longrightarrow> o2 = Returned (Some account) \<and> stdout s2 = stdout s1"
    using v1(2,3) by auto
  have t2: "tables (world s2) ?src = None" using assms v2(2) by simp
  note g3 = get_dynamodb_table_missing [OF t2, of m pager key_of]
  let ?s3 = "s2\<lparr>calls := calls s2 @ [DynamodbResource (src_profile a) (src_region a), TableLoad ?src],
                 stdout := stdout s2 @ [?msg]\<rparr>"
  show ?thesis
  proof (cases "\<exists>x. o1 = Returned x")
    case False
    then have "run ?b a s = Some (case o1 of Raised e \<Rightarrow> Raised e | SystemExit c \<Rightarrow> SystemExit c, s1)"
      "(case o1 of Raised e \<Rightarrow> Raised e | SystemExit c \<Rightarrow> SystemExit c) \<noteq> Returned ()"
      "\<not> ?ok1"
      using v1(1,4) by (cases o1; auto simp: run_def and_then_def)+
    with v1(2,3) show ?thesis by auto
  next
    case True
    note r1 = this
    show ?thesis
    proof (cases "\<exists>x. o2 = Returned x")
      case False
      then have "run ?b a s = Some (case o2 of Raised e \<Rightarrow> Raised e | SystemExit c \<Rightarrow> SystemExit c, s2)"
        "(case o2 of Raised e \<Rightarrow> Raised e | SystemExit c \<Rightarrow> SystemExit c) \<noteq> Returned ()"
        "\<not> ?ok2"
        using r1 v1(1) v2(1,4) by (cases o2; auto simp: run_def and_then_def)+
      with v2(2,3) show ?thesis by auto
    next
      case True
      with r1 v1(1) v2(1) g3 have run: "run ?b a s = Some (SystemExit 1, ?s3)"
        by (auto simp: run_def and_then_def)
      have "?ok1 \<and> ?ok2 \<longrightarrow> stdout ?s3 = stdout (echo_args a s) @ [?msg]"
        using v1(4) v2(4) by auto
      with run v2(2,3) show ?thesis
        by - (rule exI [of _ "SystemExit 1"], rule exI [of _ ?s3], auto)
    qed
  qed
qed


theorem missing_source_table_is_fatal_witness:
  "tables (world example_state)
      \<lparr>table_name = src_table_name example_missing_args,
       profile_name = src_profile example_missing_args,
       region_name = src_region example_missing_args\<rparr> = None
   \<and> (\<exists>s'. run (dynamodb 25 one_item_pages fst) example_missing_args example_state
               = Some (SystemExit 1, s')
           \<and> world s' = world example_state
           \<and> last (stdout s') = ''ERROR: count not find the table named '' @ quote ''FAKE_TABLE_NAME''
           \<and> calls s' = [StsGetCallerIdentity ''default'' ''us-east-1'',
                          StsGetCallerIdentity ''default'' ''us-east-1'',
                          DynamodbResource ''default'' ''us-east-1'',
                          TableLoad \<lparr>table_name = ''FAKE_TABLE_NAME'', profile_name = ''default'',
                                     region_name = ''us-east-1''\<rparr>])"
proof -
  have h: "tables (world example_state)
      \<lparr>table_name = src_table_name example_missing_args,
       profile_name = src_profile example_missing_args,
       region_name = src_region example_missing_args\<rparr> = None"
    by (simp add: example_state_def initial_def example_world_def example_missing_args_def
        example_args_def example_source_def example_destination_def)
  have ok: "\<exists>account. identities (world example_state) (src_profile example_missing_args)
                (src_region example_missing_args) = Inr account"
    "\<exists>account. identities (world example_state) (dest_profile example_missing_args)
                (dest_region example_missing_args) = Inr account"
    by (simp_all add: example_state_def initial_def example_world_def)
  from missing_source_table_is_fatal [OF h, of 25 one_item_pages fst] ok
  obtain s' where
    "run (dynamodb 25 one_item_pages fst) example_missing_args example_state = Some (SystemExit 1, s')"
    "world s' = world example_state"
    "stdout s' = stdout (echo_args example_missing_args example_state)
       @ [''ERROR: count not find the table named '' @ quote (src_table_name example_missing_args)]"
    "calls s' = calls example_state
                         @ [StsGetCallerIdentity (src_profile example_missing_args)
                              (src_region example_missing_args),
                            StsGetCallerIdentity (dest_profile example_missing_args)
                              (dest_region example_missing_args),
                            DynamodbResource (src_profile example_missing_args)
                              (src_region example_missing_args),
                            TableLoad \<lparr>table_name = src_table_name example_missing_args,
                                       profile_name = src_profile example_missing_args,
                                       region_name = src_region example_missing_args\<rparr>]"
    by blast
  with h show ?thesis
    by - (rule conjI, assumption, rule exI [of _ s'],
          simp add: example_missing_args_def example_args_def example_state_def initial_def)
qed

text \<open>
  C4. Every error is to end the run with a message. \<^verbatim>\<open>validate_aws_credentials\<close>
  does so for the error codes \<^verbatim>\<open>ExpiredToken\<close> and \<^verbatim>\<open>InvalidClientTokenId\<close> only:
  a \<^verbatim>\<open>ClientError\<close> with any other code is caught and dropped, the function
  returns \<^verbatim>\<open>None\<close> without printing, and the run goes on. With a store whose
  identity service answers \<^verbatim>\<open>ServiceUnavailable\<close>, the whole copy is carried out and
  nothing but the six lines of parameters is printed.
\<close>

theorem unlisted_client_error_is_swallowed:
  "fst (validate_aws_credentials (dynamodb 25 one_item_pages fst) ''default'' ''us-east-1''
          example_unchecked_state) = Returned None
   \<and> stdout (snd (validate_aws_credentials (dynamodb 25 one_item_pages fst) ''default''
          ''us-east-1'' example_unchecked_state)) = []
   \<and> (case run (dynamodb 25 one_item_pages fst) example_args example_unchecked_state of
         None \<Rightarrow> False
       | Some (out, s') \<Rightarrow> out = Returned ()
           \<and> stdout s' = [''src_table = TEST_SOURCE'', ''src_profile = default'',
                           ''src_region = us-east-1'', ''dest_table = TEST_DESTINATION'',
                           ''dest_profile = default'', ''dest_region = us-east-1'']
           \<and> tables (world s') example_destination = Some example_items)"
  by code_simp


end
